theory Spec2Isabelle
  imports Main "HOL-Library.Sublist" "HOL-Library.List_Lexorder" "HOL-Library.Product_Lexorder"
begin

section \<open>Python strings\<close>

text \<open>
  A Python \<^verbatim>\<open>str\<close> is a sequence of Unicode code points: \<^verbatim>\<open>len\<close> counts code points
  and the ellipsis U+2026 is one of them. A code point is a natural number here, and
  \<open>u\<close> turns an ASCII literal into the string of its code points.
\<close>

type_synonym codepoint = nat
type_synonym pystr = "codepoint list"

definition u :: "string \<Rightarrow> pystr" where
  "u s = map of_char s"

text \<open>
  \<^verbatim>\<open>str.isspace\<close> of one code point (CPython's \<^verbatim>\<open>_PyUnicode_IsWhitespace\<close>): the
  characters that \<^verbatim>\<open>strip()\<close> and \<^verbatim>\<open>rstrip()\<close> remove when called without argument.
\<close>

definition py_isspace :: "codepoint \<Rightarrow> bool" where
  "py_isspace c =
     ((0x09 \<le> c \<and> c \<le> 0x0D) \<or> (0x1C \<le> c \<and> c \<le> 0x20) \<or> c = 0x85 \<or> c = 0xA0
      \<or> c = 0x1680 \<or> (0x2000 \<le> c \<and> c \<le> 0x200A) \<or> c = 0x2028 \<or> c = 0x2029
      \<or> c = 0x202F \<or> c = 0x205F \<or> c = 0x3000)"

definition lstrip :: "pystr \<Rightarrow> pystr" where
  "lstrip s = dropWhile py_isspace s"

definition rstrip :: "pystr \<Rightarrow> pystr" where
  "rstrip s = rev (dropWhile py_isspace (rev s))"

definition strip :: "pystr \<Rightarrow> pystr" where
  "strip s = rstrip (lstrip s)"

text \<open>
  The slice \<^verbatim>\<open>s[:k]\<close> for a Python integer \<open>k\<close>: the first \<open>k\<close> characters when
  \<open>k\<close> is not negative, and all but the last \<open>-k\<close> characters when it is.
\<close>

definition slice_to :: "'a list \<Rightarrow> int \<Rightarrow> 'a list" where
  "slice_to s k = (if 0 \<le> k then take (nat k) s else take (length s - nat (- k)) s)"

definition ellipsis :: codepoint where
  "ellipsis = 0x2026"

section \<open>ContentNormalizer: \<^verbatim>\<open>clamp_text\<close>\<close>

text \<open>
  \<^verbatim>\<open>return s if len(s) <= max_len else s[: max_len - 1].rstrip() + "\<dots>"\<close>
\<close>

definition clamp_text :: "pystr \<Rightarrow> int \<Rightarrow> pystr" where
  "clamp_text s max_len =
     (if int (length s) \<le> max_len then s
      else rstrip (slice_to s (max_len - 1)) @ [ellipsis])"

section \<open>PlainTextRenderer: \<^verbatim>\<open>nl2br\<close>\<close>

text \<open>
  \<^verbatim>\<open>str.replace(old, new)\<close>: the occurrences of \<open>old\<close> are found from left to right
  and do not overlap; an empty \<open>old\<close> matches before every character and at the end.
\<close>

function replace_py :: "'a list \<Rightarrow> 'a list \<Rightarrow> 'a list \<Rightarrow> 'a list" where
  "replace_py old new [] = (if old = [] then new else [])"
| "replace_py old new (c # cs) =
     (if old = [] then new @ c # replace_py old new cs
      else if prefix old (c # cs) then new @ replace_py old new (drop (length old) (c # cs))
      else c # replace_py old new cs)"
  by pat_completeness auto
termination
  by (relation "measure (\<lambda>(old, new, s). length s)") (auto simp: neq_Nil_conv)

definition CR :: codepoint where
  "CR = 0x0D"

definition LF :: codepoint where
  "LF = 0x0A"

definition br_tag :: pystr where
  "br_tag = u ''<br>''"

text \<open>
  The value a template hands to a filter is a plain \<^verbatim>\<open>str\<close> or a
  \<^verbatim>\<open>markupsafe.Markup\<close>, the subclass of \<^verbatim>\<open>str\<close> that the \<^verbatim>\<open>e\<close> filter returns and that
  the template engine does not escape again.
\<close>

datatype text_value = Str pystr | Markup pystr

fun str_value :: "text_value \<Rightarrow> pystr" where
  "str_value (Str s) = s"
| "str_value (Markup s) = s"

text \<open>
  \<^verbatim>\<open>markupsafe.escape\<close> of a plain string replaces \<^verbatim>\<open>&\<close>, \<^verbatim>\<open>>\<close>, \<^verbatim>\<open><\<close>, the single
  quote and the double quote, in this order. The \<^verbatim>\<open>e\<close> filter is this function; a
  \<^verbatim>\<open>Markup\<close> passes through it unchanged.
\<close>

definition html_escape :: "pystr \<Rightarrow> pystr" where
  "html_escape s =
     replace_py [0x22] (u ''&#34;'')
       (replace_py [0x27] (u ''&#39;'')
         (replace_py (u ''<'') (u ''&lt;'')
           (replace_py (u ''>'') (u ''&gt;'')
             (replace_py (u ''&'') (u ''&amp;'') s))))"

fun escape :: "text_value \<Rightarrow> text_value" where
  "escape (Str s) = Markup (html_escape s)"
| "escape (Markup s) = Markup s"

text \<open>
  \<^verbatim>\<open>value.replace(old, new)\<close> with two string literals. On a \<^verbatim>\<open>str\<close> it is
  \<^verbatim>\<open>str.replace\<close>. \<^verbatim>\<open>Markup.replace\<close> escapes both arguments first and then replaces
  in the wrapped string; its result is a \<^verbatim>\<open>Markup\<close> again.
\<close>

fun value_replace :: "pystr \<Rightarrow> pystr \<Rightarrow> text_value \<Rightarrow> text_value" where
  "value_replace old new (Str s) = Str (replace_py old new s)"
| "value_replace old new (Markup s) =
     Markup (replace_py (str_value (escape (Str old))) (str_value (escape (Str new))) s)"

text \<open>
  \<^verbatim>\<open>value or ""\<close> is the plain empty string when the argument is \<^verbatim>\<open>None\<close> or empty (an
  empty \<^verbatim>\<open>Markup\<close> is falsy too), and the argument itself otherwise. The result
  \<^verbatim>\<open>Markup(s)\<close> is given by the string it wraps.
\<close>

definition nl2br :: "text_value option \<Rightarrow> pystr" where
  "nl2br v =
     (let s0 = (case v of None \<Rightarrow> Str [] | Some t \<Rightarrow> if str_value t = [] then Str [] else t);
          s1 = value_replace [CR] [LF] (value_replace [CR, LF] [LF] s0);
          s2 = value_replace (u ''&lt;br /&gt;'') br_tag
                 (value_replace (u ''&lt;br/&gt;'') br_tag
                   (value_replace (u ''&lt;br&gt;'') br_tag s1));
          s3 = value_replace [LF] br_tag s2
      in str_value s3)"

section \<open>Errors\<close>

text \<open>
  \<open>Abort n\<close> is Flask's \<^verbatim>\<open>abort(n)\<close>. The others are Python exceptions that no
  handler of the application catches (the client sees status 500): \<^verbatim>\<open>ValueError\<close> of
  \<^verbatim>\<open>int()\<close>, \<^verbatim>\<open>OverflowError\<close> of the \<^verbatim>\<open>sqlite3\<close> module when an integer parameter
  does not fit SQLite's signed 64-bit INTEGER, \<^verbatim>\<open>sqlite3.OperationalError\<close> and
  \<^verbatim>\<open>sqlite3.IntegrityError\<close>.
\<close>

datatype error = Abort nat | ValueError | OverflowError | OperationalError | IntegrityError

section \<open>MarkdownRenderer: \<^verbatim>\<open>markdown_to_html\<close>\<close>

definition ALLOWED_TAGS :: "string list" where
  "ALLOWED_TAGS =
     [''p'', ''br'', ''strong'', ''em'', ''code'', ''pre'', ''blockquote'',
      ''ul'', ''ol'', ''li'', ''a'', ''h1'', ''h2'', ''h3'', ''h4'', ''h5'', ''h6'']"

definition ALLOWED_ATTRS :: "(string \<times> string list) list" where
  "ALLOWED_ATTRS = [(''a'', [''href'', ''title'', ''rel''])]"

definition ALLOWED_PROTOCOLS :: "string list" where
  "ALLOWED_PROTOCOLS = [''http'', ''https'', ''mailto'']"

text \<open>
  \<^verbatim>\<open>MarkdownIt.render\<close> and \<^verbatim>\<open>bleach.clean\<close> are functions of two libraries, not of this
  program: they are parameters of the model. \<open>md_render\<close> is the renderer configured with
  \<^verbatim>\<open>"commonmark"\<close> and \<^verbatim>\<open>breaks\<close>; \<open>bleach_clean\<close> takes the text, the allowed tags,
  attributes and protocols, and the \<^verbatim>\<open>strip\<close> flag. Either may raise.
\<close>

type_synonym md_renderer = "pystr \<Rightarrow> error + pystr"
type_synonym html_cleaner =
  "pystr \<Rightarrow> string list \<Rightarrow> (string \<times> string list) list \<Rightarrow> string list \<Rightarrow> bool \<Rightarrow> error + pystr"

definition markdown_to_html :: "md_renderer \<Rightarrow> html_cleaner \<Rightarrow> pystr option \<Rightarrow> error + pystr" where
  "markdown_to_html md_render bleach_clean text =
     (let raw = (case text of None \<Rightarrow> [] | Some t \<Rightarrow> t)
      in case md_render raw of
           Inl e \<Rightarrow> Inl e
         | Inr html \<Rightarrow> bleach_clean html ALLOWED_TAGS ALLOWED_ATTRS ALLOWED_PROTOCOLS True)"

section \<open>Python's \<^verbatim>\<open>str.isdigit\<close> and \<^verbatim>\<open>int\<close>\<close>

text \<open>
  The decimal digits of Unicode (general category Nd) come in blocks of ten consecutive
  code points with the values 0 to 9. These are the first code points of the blocks of
  Unicode 14.0, the table of CPython 3.11.
\<close>

definition decimal_blocks :: "codepoint list" where
  "decimal_blocks =
     [0x30, 0x660, 0x6F0, 0x7C0, 0x966, 0x9E6, 0xA66, 0xAE6, 0xB66, 0xBE6, 0xC66, 0xCE6,
      0xD66, 0xDE6, 0xE50, 0xED0, 0xF20, 0x1040, 0x1090, 0x17E0, 0x1810, 0x1946, 0x19D0,
      0x1A80, 0x1A90, 0x1B50, 0x1BB0, 0x1C40, 0x1C50, 0xA620, 0xA8D0, 0xA900, 0xA9D0,
      0xA9F0, 0xAA50, 0xABF0, 0xFF10, 0x104A0, 0x10D30, 0x11066, 0x110F0, 0x11136,
      0x111D0, 0x112F0, 0x11450, 0x114D0, 0x11650, 0x116C0, 0x11730, 0x118E0, 0x11950,
      0x11C50, 0x11D50, 0x11DA0, 0x16A60, 0x16AC0, 0x16B50, 0x1D7CE, 0x1D7D8, 0x1D7E2,
      0x1D7EC, 0x1D7F6, 0x1E140, 0x1E2F0, 0x1E950, 0x1FBF0]"

text \<open>The decimal value of a code point (\<^verbatim>\<open>Py_UNICODE_TODECIMAL\<close>), if it has one.\<close>

definition py_decimal :: "codepoint \<Rightarrow> nat option" where
  "py_decimal c =
     (case filter (\<lambda>b. b \<le> c \<and> c < b + 10) decimal_blocks of
        [] \<Rightarrow> None
      | b # _ \<Rightarrow> Some (c - b))"

text \<open>
  The code points that are digits without being decimal digits (superscripts, subscripts,
  circled digits and the like), as inclusive ranges: \<^verbatim>\<open>isdigit\<close> accepts them and
  \<^verbatim>\<open>int\<close> does not.
\<close>

definition digit_only_ranges :: "(codepoint \<times> codepoint) list" where
  "digit_only_ranges =
     [(0xB2, 0xB3), (0xB9, 0xB9), (0x1369, 0x1371), (0x19DA, 0x19DA), (0x2070, 0x2070),
      (0x2074, 0x2079), (0x2080, 0x2089), (0x2460, 0x2468), (0x2474, 0x247C),
      (0x2488, 0x2490), (0x24EA, 0x24EA), (0x24F5, 0x24FD), (0x24FF, 0x24FF),
      (0x2776, 0x277E), (0x2780, 0x2788), (0x278A, 0x2792), (0x10A40, 0x10A43),
      (0x10E60, 0x10E68), (0x11052, 0x1105A), (0x1F100, 0x1F10A)]"

definition py_isdigit_char :: "codepoint \<Rightarrow> bool" where
  "py_isdigit_char c =
     (py_decimal c \<noteq> None \<or> list_ex (\<lambda>(a, b). a \<le> c \<and> c \<le> b) digit_only_ranges)"

text \<open>\<^verbatim>\<open>str.isdigit\<close>: at least one character, and every character a digit.\<close>

definition isdigit :: "pystr \<Rightarrow> bool" where
  "isdigit s = (s \<noteq> [] \<and> list_all py_isdigit_char s)"

text \<open>
  \<^verbatim>\<open>int(s)\<close> for a string: white space around the literal is dropped (the ASCII white
  space of C and the white space beyond ASCII), then comes an optional sign and then
  decimal digits, where single underscores may stand between digits. Anything else is a
  \<^verbatim>\<open>ValueError\<close>. So is a literal of more than \<open>max_str_digits\<close> digits (underscores
  not counted): the limit of CPython 3.11, 4300 unless configured otherwise.
\<close>

definition max_str_digits :: nat where
  "max_str_digits = 4300"

definition int_isspace :: "codepoint \<Rightarrow> bool" where
  "int_isspace c = ((0x09 \<le> c \<and> c \<le> 0x0D) \<or> c = 0x20 \<or> (0x7F \<le> c \<and> py_isspace c))"

fun int_digits :: "pystr \<Rightarrow> nat list option" where
  "int_digits [] = None"
| "int_digits (c # cs) =
     (case py_decimal c of
        None \<Rightarrow> None
      | Some d \<Rightarrow>
          (case cs of
             [] \<Rightarrow> Some [d]
           | x # r \<Rightarrow>
               (if x = 0x5F then map_option (Cons d) (int_digits r)
                else map_option (Cons d) (int_digits cs))))"

definition py_int :: "pystr \<Rightarrow> error + int" where
  "py_int s =
     (let t = rev (dropWhile int_isspace (rev (dropWhile int_isspace s)));
          neg = (t \<noteq> [] \<and> hd t = 0x2D);
          body = (if t \<noteq> [] \<and> (hd t = 0x2B \<or> hd t = 0x2D) then tl t else t)
      in case int_digits body of
           None \<Rightarrow> Inl ValueError
         | Some ds \<Rightarrow>
             if max_str_digits < length ds then Inl ValueError
             else (let n = int (foldl (\<lambda>a d. 10 * a + d) 0 ds) in Inr (if neg then - n else n)))"

section \<open>The persistent store\<close>

text \<open>
  The rows of the four tables, in the order of insertion. \<^verbatim>\<open>category_id\<close> of a thread is
  nullable. Timestamps are seconds, as \<^verbatim>\<open>now_ts\<close> returns them.
\<close>

record category =
  cat_id :: int
  cat_slug :: pystr
  cat_name :: pystr

record thread =
  th_id :: int
  th_title :: pystr
  th_posts_count :: int
  th_created_at :: int
  th_last_activity_at :: int
  th_category_id :: "int option"

record post =
  po_id :: int
  po_thread_id :: int
  po_author :: pystr
  po_content :: pystr
  po_created_at :: int

record comment =
  co_id :: int
  co_post_id :: int
  co_author :: pystr
  co_content :: pystr
  co_created_at :: int

text \<open>
  Every table has an \<^verbatim>\<open>INTEGER PRIMARY KEY AUTOINCREMENT\<close>; the \<open>seq\<close> fields are the
  rows of \<^verbatim>\<open>sqlite_sequence\<close>, the largest key each table has ever held.
\<close>

record store =
  categories :: "category list"
  threads :: "thread list"
  posts :: "post list"
  comments :: "comment list"
  seq_categories :: int
  seq_threads :: int
  seq_posts :: int
  seq_comments :: int

text \<open>
  SQLite integers are signed 64-bit. The \<^verbatim>\<open>sqlite3\<close> module raises \<^verbatim>\<open>OverflowError\<close>
  when it binds a Python integer outside that range to a parameter.
\<close>

definition sqlite_int :: "int \<Rightarrow> bool" where
  "sqlite_int n = (- (2 ^ 63) \<le> n \<and> n \<le> 2 ^ 63 - 1)"

text \<open>
  The key AUTOINCREMENT gives a new row: one more than the largest key the table has
  ever held. When that is the largest 64-bit integer the insertion fails (SQLITE_FULL,
  an \<^verbatim>\<open>OperationalError\<close>).
\<close>

definition next_rowid :: "int \<Rightarrow> int list \<Rightarrow> error + int" where
  "next_rowid seq ids =
     (let m = Max (set (seq # ids))
      in if 2 ^ 63 - 1 \<le> m then Inl OperationalError else Inr (m + 1))"

text \<open>\<^verbatim>\<open>SELECT id FROM categories WHERE id = ?\<close>, \<^verbatim>\<open>fetchone()\<close>\<close>

definition select_category_by_id :: "store \<Rightarrow> int \<Rightarrow> error + category option" where
  "select_category_by_id st n =
     (if \<not> sqlite_int n then Inl OverflowError
      else Inr (find (\<lambda>c. cat_id c = n) (categories st)))"

text \<open>\<^verbatim>\<open>SELECT id FROM categories ORDER BY id ASC LIMIT 1\<close>, \<^verbatim>\<open>fetchone()\<close>\<close>

definition select_first_category :: "store \<Rightarrow> category option" where
  "select_first_category st =
     (case sort_key cat_id (categories st) of [] \<Rightarrow> None | c # _ \<Rightarrow> Some c)"

text \<open>
  \<^verbatim>\<open>INSERT INTO threads (title, posts_count, created_at, last_activity_at, category_id)
  VALUES (?, 0, ?, ?, ?)\<close>; the result carries \<^verbatim>\<open>lastrowid\<close>.
\<close>

definition insert_thread :: "store \<Rightarrow> pystr \<Rightarrow> int \<Rightarrow> int \<Rightarrow> error + store \<times> int" where
  "insert_thread st title ts category_id =
     (if \<not> (sqlite_int ts \<and> sqlite_int category_id) then Inl OverflowError
      else case next_rowid (seq_threads st) (map th_id (threads st)) of
             Inl e \<Rightarrow> Inl e
           | Inr i \<Rightarrow>
               Inr (st\<lparr>threads := threads st @
                          [\<lparr>th_id = i, th_title = title, th_posts_count = 0, th_created_at = ts,
                            th_last_activity_at = ts, th_category_id = Some category_id\<rparr>],
                        seq_threads := i\<rparr>, i))"

text \<open>
  \<^verbatim>\<open>INSERT INTO posts (thread_id, author, content, created_at) VALUES (?, ?, ?, ?)\<close>.
  Foreign keys are enforced (\<^verbatim>\<open>PRAGMA foreign_keys=ON\<close>): a post of no thread is an
  \<^verbatim>\<open>IntegrityError\<close>.
\<close>

definition insert_post :: "store \<Rightarrow> int \<Rightarrow> pystr \<Rightarrow> pystr \<Rightarrow> int \<Rightarrow> error + store" where
  "insert_post st thread_id author content ts =
     (if \<not> (sqlite_int thread_id \<and> sqlite_int ts) then Inl OverflowError
      else case next_rowid (seq_posts st) (map po_id (posts st)) of
             Inl e \<Rightarrow> Inl e
           | Inr i \<Rightarrow>
               (if \<not> list_ex (\<lambda>t. th_id t = thread_id) (threads st) then Inl IntegrityError
                else Inr (st\<lparr>posts := posts st @
                               [\<lparr>po_id = i, po_thread_id = thread_id, po_author = author,
                                 po_content = content, po_created_at = ts\<rparr>],
                             seq_posts := i\<rparr>)))"

text \<open>\<^verbatim>\<open>INSERT INTO comments (post_id, author, content, created_at) VALUES (?, ?, ?, ?)\<close>\<close>

definition insert_comment :: "store \<Rightarrow> int \<Rightarrow> pystr \<Rightarrow> pystr \<Rightarrow> int \<Rightarrow> error + store" where
  "insert_comment st post_id author content ts =
     (if \<not> (sqlite_int post_id \<and> sqlite_int ts) then Inl OverflowError
      else case next_rowid (seq_comments st) (map co_id (comments st)) of
             Inl e \<Rightarrow> Inl e
           | Inr i \<Rightarrow>
               (if \<not> list_ex (\<lambda>p. po_id p = post_id) (posts st) then Inl IntegrityError
                else Inr (st\<lparr>comments := comments st @
                               [\<lparr>co_id = i, co_post_id = post_id, co_author = author,
                                 co_content = content, co_created_at = ts\<rparr>],
                             seq_comments := i\<rparr>)))"

text \<open>
  \<^verbatim>\<open>UPDATE threads SET posts_count = posts_count + 1, last_activity_at=? WHERE id=?\<close>
\<close>

definition update_thread_posted :: "store \<Rightarrow> int \<Rightarrow> int \<Rightarrow> error + store" where
  "update_thread_posted st ts thread_id =
     (if \<not> (sqlite_int ts \<and> sqlite_int thread_id) then Inl OverflowError
      else Inr (st\<lparr>threads :=
                  map (\<lambda>t. if th_id t = thread_id
                           then t\<lparr>th_posts_count := th_posts_count t + 1,
                                  th_last_activity_at := ts\<rparr>
                           else t) (threads st)\<rparr>))"

text \<open>\<^verbatim>\<open>UPDATE threads SET last_activity_at=? WHERE id=?\<close>\<close>

definition update_thread_activity :: "store \<Rightarrow> int \<Rightarrow> int \<Rightarrow> error + store" where
  "update_thread_activity st ts thread_id =
     (if \<not> (sqlite_int ts \<and> sqlite_int thread_id) then Inl OverflowError
      else Inr (st\<lparr>threads :=
                  map (\<lambda>t. if th_id t = thread_id then t\<lparr>th_last_activity_at := ts\<rparr> else t)
                    (threads st)\<rparr>))"

section \<open>ForumStore: the mutating handlers\<close>

text \<open>
  A form (\<^verbatim>\<open>request.form\<close>, \<^verbatim>\<open>request.args\<close>) maps a field name to its value.
  \<open>field\<close> is \<^verbatim>\<open>request.form.get(k) or ""\<close>.
\<close>

type_synonym form = "string \<rightharpoonup> pystr"

definition field :: "form \<Rightarrow> string \<Rightarrow> pystr" where
  "field frm k = (case frm k of None \<Rightarrow> [] | Some v \<Rightarrow> v)"

text \<open>
  The answer of a mutating handler: \<^verbatim>\<open>redirect(url_for("thread_view", thread_id=...))\<close>,
  with the fragment \<^verbatim>\<open>#p<post_id>\<close> after a comment.
\<close>

datatype response = Redirect int "int option"

text \<open>
  A handler gets the store, the request's data and the reading of the clock
  (\<^verbatim>\<open>now_ts()\<close>). It returns the committed store and the response, or the error it
  ended with. Nothing is committed before the last statement, and the connection is closed
  without a commit when the handler raises: after an error the store is the one before.
\<close>

definition create_thread :: "store \<Rightarrow> form \<Rightarrow> int \<Rightarrow> error + store \<times> response" where
  "create_thread st frm now =
     (let title = strip (field frm ''title'');
          author = (let a = strip (field frm ''author'') in if a = [] then u ''anon'' else a);
          content = strip (field frm ''content'');
          cat_id_raw = frm ''category_id''
      in if title = [] \<or> content = [] then Inl (Abort 400)
         else
           let title = clamp_text title 140;
               author = clamp_text author 32;
               content = clamp_text content 5000
           in case (case cat_id_raw of
                      None \<Rightarrow> Inr None
                    | Some raw \<Rightarrow>
                        if raw \<noteq> [] \<and> isdigit raw
                        then (case py_int raw of
                                Inl e \<Rightarrow> Inl e
                              | Inr n \<Rightarrow> select_category_by_id st n)
                        else Inr None) of
                Inl e \<Rightarrow> Inl e
              | Inr cat_row \<Rightarrow>
                  (case (if cat_row = None then select_first_category st else cat_row) of
                     None \<Rightarrow> Inl (Abort 400)
                   | Some c \<Rightarrow>
                       (let category_id = cat_id c; ts = now
                        in case insert_thread st title ts category_id of
                             Inl e \<Rightarrow> Inl e
                           | Inr (st1, thread_id) \<Rightarrow>
                               (case insert_post st1 thread_id author content ts of
                                  Inl e \<Rightarrow> Inl e
                                | Inr st2 \<Rightarrow>
                                    (case update_thread_posted st2 ts thread_id of
                                       Inl e \<Rightarrow> Inl e
                                     | Inr st3 \<Rightarrow> Inr (st3, Redirect thread_id None))))))"

text \<open>\<^verbatim>\<open>SELECT 1 FROM threads WHERE id=?\<close>, \<^verbatim>\<open>fetchone()\<close>\<close>

definition select_thread_exists :: "store \<Rightarrow> int \<Rightarrow> error + bool" where
  "select_thread_exists st thread_id =
     (if \<not> sqlite_int thread_id then Inl OverflowError
      else Inr (list_ex (\<lambda>t. th_id t = thread_id) (threads st)))"

definition reply :: "store \<Rightarrow> int \<Rightarrow> form \<Rightarrow> int \<Rightarrow> error + store \<times> response" where
  "reply st thread_id frm now =
     (case select_thread_exists st thread_id of
        Inl e \<Rightarrow> Inl e
      | Inr found \<Rightarrow>
          if \<not> found then Inl (Abort 404)
          else
            let author = (let a = strip (field frm ''author'') in if a = [] then u ''anon'' else a);
                content = strip (field frm ''content'')
            in if content = [] then Inl (Abort 400)
               else
                 let author = clamp_text author 32;
                     content = clamp_text content 5000;
                     ts = now
                 in (case insert_post st thread_id author content ts of
                       Inl e \<Rightarrow> Inl e
                     | Inr st1 \<Rightarrow>
                         (case update_thread_posted st1 ts thread_id of
                            Inl e \<Rightarrow> Inl e
                          | Inr st2 \<Rightarrow> Inr (st2, Redirect thread_id None))))"

text \<open>\<^verbatim>\<open>SELECT id, thread_id FROM posts WHERE id=?\<close>, \<^verbatim>\<open>fetchone()\<close>\<close>

definition select_post_by_id :: "store \<Rightarrow> int \<Rightarrow> error + post option" where
  "select_post_by_id st post_id =
     (if \<not> sqlite_int post_id then Inl OverflowError
      else Inr (find (\<lambda>p. po_id p = post_id) (posts st)))"

definition comment :: "store \<Rightarrow> int \<Rightarrow> form \<Rightarrow> int \<Rightarrow> error + store \<times> response" where
  "comment st post_id frm now =
     (case select_post_by_id st post_id of
        Inl e \<Rightarrow> Inl e
      | Inr None \<Rightarrow> Inl (Abort 404)
      | Inr (Some post) \<Rightarrow>
          let author = (let a = strip (field frm ''author'') in if a = [] then u ''anon'' else a);
              content = strip (field frm ''content'')
          in if content = [] then Inl (Abort 400)
             else
               let author = clamp_text author 32;
                   content = clamp_text content 2000;
                   ts = now
               in (case insert_comment st post_id author content ts of
                     Inl e \<Rightarrow> Inl e
                   | Inr st1 \<Rightarrow>
                       (case update_thread_activity st1 ts (po_thread_id post) of
                          Inl e \<Rightarrow> Inl e
                        | Inr st2 \<Rightarrow> Inr (st2, Redirect (po_thread_id post) (Some post_id)))))"

section \<open>ForumStore: the listings\<close>

text \<open>
  \<^verbatim>\<open>try: page = max(int(request.args.get("page", "1")), 1)\<close>
  \<^verbatim>\<open>except ValueError: page = 1\<close>
\<close>

definition parse_page :: "form \<Rightarrow> error + int" where
  "parse_page args =
     (case py_int (case args ''page'' of None \<Rightarrow> u ''1'' | Some v \<Rightarrow> v) of
        Inl e \<Rightarrow> if e = ValueError then Inr 1 else Inl e
      | Inr n \<Rightarrow> Inr (max n 1))"

text \<open>\<^verbatim>\<open>LEFT JOIN categories c ON c.id = t.category_id\<close>\<close>

definition join_category :: "store \<Rightarrow> thread \<Rightarrow> thread \<times> category option" where
  "join_category st t =
     (t, case th_category_id t of
           None \<Rightarrow> None
         | Some i \<Rightarrow> find (\<lambda>c. cat_id c = i) (categories st))"

text \<open>\<^verbatim>\<open>ORDER BY t.last_activity_at DESC, t.id DESC\<close>\<close>

definition order_threads :: "thread list \<Rightarrow> thread list" where
  "order_threads ts = sort_key (\<lambda>t. (- th_last_activity_at t, - th_id t)) ts"

text \<open>
  \<^verbatim>\<open>LIMIT ? OFFSET ?\<close> with the parameters \<^verbatim>\<open>(per_page, offset)\<close>, bound as integers.
\<close>

definition limit_offset :: "'a list \<Rightarrow> int \<Rightarrow> int \<Rightarrow> error + 'a list" where
  "limit_offset rows per_page offset =
     (if \<not> (sqlite_int per_page \<and> sqlite_int offset) then Inl OverflowError
      else Inr (take (nat per_page) (drop (nat offset) rows)))"

text \<open>
  The ten most recent posts, each with its thread and the thread's category:
  \<^verbatim>\<open>FROM posts p JOIN threads t ON t.id = p.thread_id LEFT JOIN categories c ...
  ORDER BY p.id DESC LIMIT 10\<close>
\<close>

definition recent_posts :: "store \<Rightarrow> (post \<times> thread \<times> category option) list" where
  "recent_posts st =
     take 10 (rev (sort_key (\<lambda>(p, t, c). po_id p)
       (concat (map (\<lambda>p. map (\<lambda>t. (p, join_category st t))
                            (filter (\<lambda>t. th_id t = po_thread_id p) (threads st)))
                    (posts st)))))"

record index_page =
  ip_threads :: "(thread \<times> category option) list"
  ip_categories :: "category list"
  ip_cat :: "category option"
  ip_recent_posts :: "(post \<times> thread \<times> category option) list"
  ip_page :: int
  ip_total_pages :: int

definition index :: "store \<Rightarrow> form \<Rightarrow> error + index_page" where
  "index st args =
     (let cats = sort_key cat_name (categories st);
          cat = (case args ''cat'' of
                   None \<Rightarrow> None
                 | Some slug \<Rightarrow>
                     if slug = [] then None
                     else find (\<lambda>c. cat_slug c = slug) (categories st))
      in case parse_page args of
           Inl e \<Rightarrow> Inl e
         | Inr page \<Rightarrow>
             (let per_page = 20;
                  offset = (page - 1) * per_page;
                  selected = (case cat of
                                None \<Rightarrow> threads st
                              | Some c \<Rightarrow>
                                  filter (\<lambda>t. th_category_id t = Some (cat_id c)) (threads st));
                  total_threads = int (length selected)
              in case limit_offset (map (join_category st) (order_threads selected))
                        per_page offset of
                   Inl e \<Rightarrow> Inl e
                 | Inr page_rows \<Rightarrow>
                     (let total_pages = max ((total_threads + per_page - 1) div per_page) 1
                      in Inr \<lparr>ip_threads = page_rows, ip_categories = cats, ip_cat = cat,
                              ip_recent_posts = recent_posts st, ip_page = page,
                              ip_total_pages = total_pages\<rparr>)))"

text \<open>
  \<^verbatim>\<open>comments_map.setdefault(c["post_id"], []).append(c)\<close> for every comment of the
  posts of the page, in the order of their keys.
\<close>

definition group_comments :: "comment list \<Rightarrow> (int \<rightharpoonup> comment list)" where
  "group_comments cs =
     foldl (\<lambda>m c. m(co_post_id c \<mapsto> (case m (co_post_id c) of None \<Rightarrow> [] | Some l \<Rightarrow> l) @ [c]))
       Map.empty cs"

record thread_page =
  tp_thread :: "thread \<times> category option"
  tp_posts :: "post list"
  tp_comments_map :: "int \<rightharpoonup> comment list"
  tp_page :: int
  tp_total_pages :: int

definition thread_view :: "store \<Rightarrow> int \<Rightarrow> form \<Rightarrow> error + thread_page" where
  "thread_view st thread_id args =
     (if \<not> sqlite_int thread_id then Inl OverflowError
      else case find (\<lambda>t. th_id t = thread_id) (threads st) of
             None \<Rightarrow> Inl (Abort 404)
           | Some t \<Rightarrow>
               (case parse_page args of
                  Inl e \<Rightarrow> Inl e
                | Inr page \<Rightarrow>
                    (let per_page = 50;
                         offset = (page - 1) * per_page;
                         selected = filter (\<lambda>p. po_thread_id p = thread_id) (posts st);
                         total_posts = int (length selected)
                     in case limit_offset (sort_key po_id selected) per_page offset of
                          Inl e \<Rightarrow> Inl e
                        | Inr page_posts \<Rightarrow>
                            (let post_ids = map po_id page_posts;
                                 comments_map =
                                   (if post_ids = [] then Map.empty
                                    else group_comments
                                           (sort_key co_id
                                              (filter (\<lambda>c. co_post_id c \<in> set post_ids)
                                                 (comments st))));
                                 total_pages = max ((total_posts + per_page - 1) div per_page) 1
                             in Inr \<lparr>tp_thread = join_category st t, tp_posts = page_posts,
                                     tp_comments_map = comments_map, tp_page = page,
                                     tp_total_pages = total_pages\<rparr>))))"

section \<open>CsrfGuard\<close>

text \<open>
  The session is a dictionary of strings. Of a request the guard reads the method and
  the form. \<^verbatim>\<open>secrets.token_hex(16)\<close> draws 32 hexadecimal digits at random: the value
  drawn is the argument \<open>fresh\<close>. The guard returns the session as it leaves it, and the
  error it aborts with, if any.
\<close>

type_synonym session = "string \<rightharpoonup> pystr"

record request =
  req_method :: string
  req_form :: form
  req_args :: form

definition csrf_and_session_bootstrap :: "session \<Rightarrow> request \<Rightarrow> pystr \<Rightarrow> session \<times> error option" where
  "csrf_and_session_bootstrap sess req fresh =
     (let sess1 = (if sess ''csrf_token'' = None then sess(''csrf_token'' \<mapsto> fresh) else sess)
      in if req_method req = ''POST''
         then
           (let token_form = (case req_form req ''csrf_token'' of None \<Rightarrow> [] | Some v \<Rightarrow> v);
                token_sess = (case sess1 ''csrf_token'' of None \<Rightarrow> [] | Some v \<Rightarrow> v)
            in if token_form = [] \<or> token_form \<noteq> token_sess
               then (sess1, Some (Abort 400))
               else (sess1, None))
         else (sess1, None))"

text \<open>
  Flask runs the functions registered with \<^verbatim>\<open>before_request\<close> before the view, and
  does not call the view when one of them aborts. \<open>view\<close> is the view the request is
  routed to. The result is the session, the store and the response or error.
\<close>

definition full_dispatch_request ::
  "(request \<Rightarrow> store \<Rightarrow> error + store \<times> 'r) \<Rightarrow> session \<Rightarrow> request \<Rightarrow> pystr \<Rightarrow> store
     \<Rightarrow> session \<times> store \<times> (error + 'r)" where
  "full_dispatch_request view sess req fresh st =
     (case csrf_and_session_bootstrap sess req fresh of
        (sess1, Some e) \<Rightarrow> (sess1, st, Inl e)
      | (sess1, None) \<Rightarrow>
          (case view req st of
             Inl e \<Rightarrow> (sess1, st, Inl e)
           | Inr (st1, r) \<Rightarrow> (sess1, st1, Inr r)))"

section \<open>SchemaManager: \<^verbatim>\<open>init_db\<close>\<close>

text \<open>
  A database file as \<^verbatim>\<open>init_db\<close> may find it: the tables it has, the columns of
  \<^verbatim>\<open>threads\<close> (what \<^verbatim>\<open>PRAGMA table_info(threads)\<close> lists), its indexes, and the rows.
  A table that does not exist has no rows; \<open>db_rows\<close> is read only for the tables that
  exist. A thread of a table without the column \<^verbatim>\<open>category_id\<close> has no category.
\<close>

record database =
  db_tables :: "string list"
  db_threads_columns :: "string list"
  db_indexes :: "string list"
  db_rows :: store

text \<open>\<^verbatim>\<open>CREATE TABLE IF NOT EXISTS categories (...)\<close>, and the same for the other tables.\<close>

definition create_categories :: "database \<Rightarrow> database" where
  "create_categories db =
     (if ''categories'' \<in> set (db_tables db) then db
      else db\<lparr>db_tables := db_tables db @ [''categories''],
              db_rows := (db_rows db)\<lparr>categories := [], seq_categories := 0\<rparr>\<rparr>)"

definition create_threads :: "database \<Rightarrow> database" where
  "create_threads db =
     (if ''threads'' \<in> set (db_tables db) then db
      else db\<lparr>db_tables := db_tables db @ [''threads''],
              db_threads_columns :=
                [''id'', ''title'', ''posts_count'', ''created_at'', ''last_activity_at''],
              db_rows := (db_rows db)\<lparr>threads := [], seq_threads := 0\<rparr>\<rparr>)"

definition create_posts :: "database \<Rightarrow> database" where
  "create_posts db =
     (if ''posts'' \<in> set (db_tables db) then db
      else db\<lparr>db_tables := db_tables db @ [''posts''],
              db_rows := (db_rows db)\<lparr>posts := [], seq_posts := 0\<rparr>\<rparr>)"

definition create_comments :: "database \<Rightarrow> database" where
  "create_comments db =
     (if ''comments'' \<in> set (db_tables db) then db
      else db\<lparr>db_tables := db_tables db @ [''comments''],
              db_rows := (db_rows db)\<lparr>comments := [], seq_comments := 0\<rparr>\<rparr>)"

text \<open>\<^verbatim>\<open>CREATE INDEX IF NOT EXISTS name ON ...\<close>\<close>

definition create_index :: "string \<Rightarrow> database \<Rightarrow> database" where
  "create_index name db =
     (if name \<in> set (db_indexes db) then db else db\<lparr>db_indexes := db_indexes db @ [name]\<rparr>)"

text \<open>
  \<^verbatim>\<open>ALTER TABLE threads ADD COLUMN category_id INTEGER\<close>: the new column is NULL in
  every row.
\<close>

definition add_category_id_column :: "database \<Rightarrow> database" where
  "add_category_id_column db =
     db\<lparr>db_threads_columns := db_threads_columns db @ [''category_id''],
        db_rows := (db_rows db)\<lparr>threads :=
                     map (\<lambda>t. t\<lparr>th_category_id := None\<rparr>) (threads (db_rows db))\<rparr>\<rparr>"

text \<open>\<^verbatim>\<open>INSERT INTO categories (slug, name) VALUES (?, ?)\<close>\<close>

definition insert_category :: "store \<Rightarrow> pystr \<times> pystr \<Rightarrow> error + store" where
  "insert_category st d =
     (case next_rowid (seq_categories st) (map cat_id (categories st)) of
        Inl e \<Rightarrow> Inl e
      | Inr i \<Rightarrow>
          Inr (st\<lparr>categories := categories st @ [\<lparr>cat_id = i, cat_slug = fst d, cat_name = snd d\<rparr>],
                  seq_categories := i\<rparr>))"

text \<open>\<^verbatim>\<open>executemany\<close>: the statement once for each tuple, until one fails.\<close>

fun executemany :: "('s \<Rightarrow> 'a \<Rightarrow> error + 's) \<Rightarrow> 's \<Rightarrow> 'a list \<Rightarrow> error + 's" where
  "executemany stmt st [] = Inr st"
| "executemany stmt st (x # xs) =
     (case stmt st x of Inl e \<Rightarrow> Inl e | Inr st1 \<Rightarrow> executemany stmt st1 xs)"

definition defaults :: "(pystr \<times> pystr) list" where
  "defaults =
     [(u ''technology'', u ''Technology''),
      (u ''learning'', u ''Learning''),
      (u ''politics'', u ''Politics''),
      (u ''secret'', u ''Secret'')]"

text \<open>
  \<^verbatim>\<open>UPDATE threads SET category_id = COALESCE(category_id, ?) WHERE category_id IS NULL\<close>
\<close>

definition backfill_category :: "store \<Rightarrow> int \<Rightarrow> store" where
  "backfill_category st default_cat_id =
     st\<lparr>threads :=
          map (\<lambda>t. if th_category_id t = None
                   then t\<lparr>th_category_id :=
                            (case th_category_id t of None \<Rightarrow> Some default_cat_id | Some i \<Rightarrow> Some i)\<rparr>
                   else t) (threads st)\<rparr>"

definition init_db :: "database \<Rightarrow> error + database" where
  "init_db db =
     (let db1 = create_index ''idx_comments_post_id''
                  (create_comments
                    (create_index ''idx_posts_thread_id''
                      (create_index ''idx_threads_last_activity''
                        (create_posts (create_threads (create_categories db))))));
          cols = set (db_threads_columns db1);
          db2 = (if ''category_id'' \<notin> cols
                 then create_index ''idx_threads_category'' (add_category_id_column db1)
                 else db1);
          existing = length (categories (db_rows db2))
      in case (if existing = 0 then executemany insert_category (db_rows db2) defaults
               else Inr (db_rows db2)) of
           Inl e \<Rightarrow> Inl e
         | Inr st3 \<Rightarrow>
             (case select_first_category st3 of
                None \<Rightarrow> Inr (db2\<lparr>db_rows := st3\<rparr>)
              | Some row \<Rightarrow> Inr (db2\<lparr>db_rows := backfill_category st3 (cat_id row)\<rparr>)))"

text \<open>
  The handlers run after \<^verbatim>\<open>init_db\<close>, on a database that has the four tables and the
  column: \<open>opened\<close> gives its rows, the state the handlers work on.
\<close>

definition opened :: "database \<Rightarrow> store option" where
  "opened db =
     (if list_all (\<lambda>n. n \<in> set (db_tables db)) [''categories'', ''threads'', ''posts'', ''comments'']
         \<and> ''category_id'' \<in> set (db_threads_columns db)
      then Some (db_rows db) else None)"

section \<open>Vocabulary of the properties\<close>

subsection \<open>Rendering\<close>

definition LT :: codepoint where
  "LT = 0x3C"

definition GT :: codepoint where
  "GT = 0x3E"

text \<open>
  An HTML-escaped text has no angle bracket: the caller has replaced each by
  \<^verbatim>\<open>&lt;\<close> or \<^verbatim>\<open>&gt;\<close>.
\<close>

definition escaped :: "pystr \<Rightarrow> bool" where
  "escaped s = (LT \<notin> set s \<and> GT \<notin> set s)"

text \<open>
  The only markup of a text is the line break: every angle bracket in it belongs to an
  occurrence of \<^verbatim>\<open><br>\<close>.
\<close>

function only_br_tags :: "pystr \<Rightarrow> bool" where
  "only_br_tags [] = True"
| "only_br_tags (c # cs) =
     (if prefix br_tag (c # cs) then only_br_tags (drop 3 cs)
      else c \<noteq> LT \<and> c \<noteq> GT \<and> only_br_tags cs)"
  by pat_completeness auto
termination
  by (relation "measure length") auto

text \<open>The three stages of the claim, in the spec's words.\<close>

definition normalize_newlines :: "pystr \<Rightarrow> pystr" where
  "normalize_newlines s = replace_py [CR] [LF] (replace_py [CR, LF] [LF] s)"

definition unescape_br :: "pystr \<Rightarrow> pystr" where
  "unescape_br s =
     replace_py (u ''&lt;br /&gt;'') br_tag
       (replace_py (u ''&lt;br/&gt;'') br_tag (replace_py (u ''&lt;br&gt;'') br_tag s))"

definition newlines_to_br :: "pystr \<Rightarrow> pystr" where
  "newlines_to_br s = replace_py [LF] br_tag s"

text \<open>
  The same rendering read as one pass over the text, from left to right: a line end
  (\<^verbatim>\<open>\r\n\<close>, \<^verbatim>\<open>\r\<close> or \<^verbatim>\<open>\n\<close>) and an escaped break tag each become \<^verbatim>\<open><br>\<close>, and
  every other character is copied.
\<close>

function render_plain :: "pystr \<Rightarrow> pystr" where
  "render_plain [] = []"
| "render_plain (c # cs) =
     (if prefix [CR, LF] (c # cs) then br_tag @ render_plain (drop 2 (c # cs))
      else if c = CR \<or> c = LF then br_tag @ render_plain cs
      else if prefix (u ''&lt;br&gt;'') (c # cs)
        then br_tag @ render_plain (drop (length (u ''&lt;br&gt;'')) (c # cs))
      else if prefix (u ''&lt;br/&gt;'') (c # cs)
        then br_tag @ render_plain (drop (length (u ''&lt;br/&gt;'')) (c # cs))
      else if prefix (u ''&lt;br /&gt;'') (c # cs)
        then br_tag @ render_plain (drop (length (u ''&lt;br /&gt;'')) (c # cs))
      else c # render_plain cs)"
  by pat_completeness auto
termination
  by (relation "measure length") (auto simp: u_def)

subsection \<open>Example data\<close>

text \<open>
  A store with one category, one thread and its first post; a token as
  \<^verbatim>\<open>secrets.token_hex(16)\<close> may draw it; the view \<^verbatim>\<open>reply\<close> as Flask calls it for
  \<^verbatim>\<open>/thread/<id>/reply\<close> when the clock reads \<open>now\<close>; and a request whose form carries
  another token.
\<close>

definition one_thread_store :: store where
  "one_thread_store =
     \<lparr>categories = [\<lparr>cat_id = 1, cat_slug = u ''technology'', cat_name = u ''Technology''\<rparr>],
      threads = [\<lparr>th_id = 1, th_title = u ''Hello'', th_posts_count = 1, th_created_at = 100,
                  th_last_activity_at = 100, th_category_id = Some 1\<rparr>],
      posts = [\<lparr>po_id = 1, po_thread_id = 1, po_author = u ''anon'', po_content = u ''**bold**'',
                po_created_at = 100\<rparr>],
      comments = [],
      seq_categories = 1, seq_threads = 1, seq_posts = 1, seq_comments = 0\<rparr>"

definition token0 :: pystr where
  "token0 = u ''000102030405060708090a0b0c0d0e0f''"

definition reply_view :: "int \<Rightarrow> int \<Rightarrow> request \<Rightarrow> store \<Rightarrow> error + store \<times> response" where
  "reply_view thread_id now req st = reply st thread_id (req_form req) now"

definition forged_request :: request where
  "forged_request =
     \<lparr>req_method = ''POST'',
      req_form = [''csrf_token'' \<mapsto> u ''ffffffffffffffffffffffffffffffff'', ''content'' \<mapsto> u ''hi''],
      req_args = Map.empty\<rparr>"

text \<open>
  A thread form whose \<^verbatim>\<open>category_id\<close> is the one character SUPERSCRIPT TWO (U+00B2), and
  the query string \<^verbatim>\<open>?page=99999999999999999999\<close>.
\<close>

definition superscript_two_form :: form where
  "superscript_two_form =
     [''title'' \<mapsto> u ''Hello'', ''content'' \<mapsto> u ''**bold**'', ''category_id'' \<mapsto> [0xB2]]"

definition huge_page_args :: form where
  "huge_page_args = [''page'' \<mapsto> u ''99999999999999999999'']"

subsection \<open>The schema\<close>

text \<open>The tables and indexes that the script of \<^verbatim>\<open>init_db\<close> creates.\<close>

definition required_tables :: "string list" where
  "required_tables = [''categories'', ''threads'', ''posts'', ''comments'']"

definition script_indexes :: "string list" where
  "script_indexes = [''idx_threads_last_activity'', ''idx_posts_thread_id'', ''idx_comments_post_id'']"

text \<open>The script of \<^verbatim>\<open>init_db\<close> (\<^verbatim>\<open>executescript\<close>) and its migration step, by name.\<close>

definition create_script :: "database \<Rightarrow> database" where
  "create_script db =
     create_index ''idx_comments_post_id''
       (create_comments
         (create_index ''idx_posts_thread_id''
           (create_index ''idx_threads_last_activity''
             (create_posts (create_threads (create_categories db))))))"

definition migrate :: "database \<Rightarrow> database" where
  "migrate db1 =
     (if ''category_id'' \<notin> set (db_threads_columns db1)
      then create_index ''idx_threads_category'' (add_category_id_column db1)
      else db1)"

text \<open>
  A database is current when it has the four tables, the indexes of the script and the
  column \<^verbatim>\<open>category_id\<close>, at least one category, and no thread without a category.
\<close>

definition schema_current :: "database \<Rightarrow> bool" where
  "schema_current db =
     (list_all (\<lambda>n. n \<in> set (db_tables db)) required_tables
      \<and> list_all (\<lambda>n. n \<in> set (db_indexes db)) script_indexes
      \<and> ''category_id'' \<in> set (db_threads_columns db)
      \<and> categories (db_rows db) \<noteq> []
      \<and> list_all (\<lambda>t. th_category_id t \<noteq> None) (threads (db_rows db)))"

text \<open>The four default categories, with the keys that follow the key \<open>b\<close>.\<close>

definition seeded :: "int \<Rightarrow> category list" where
  "seeded b =
     [\<lparr>cat_id = b + 1, cat_slug = u ''technology'', cat_name = u ''Technology''\<rparr>,
      \<lparr>cat_id = b + 2, cat_slug = u ''learning'', cat_name = u ''Learning''\<rparr>,
      \<lparr>cat_id = b + 3, cat_slug = u ''politics'', cat_name = u ''Politics''\<rparr>,
      \<lparr>cat_id = b + 4, cat_slug = u ''secret'', cat_name = u ''Secret''\<rparr>]"

text \<open>
  A new database file; the database \<^verbatim>\<open>init_db\<close> makes of it; a database of the schema
  before categories, with one thread; and the database \<^verbatim>\<open>init_db\<close> makes of that.
\<close>

definition empty_store :: store where
  "empty_store =
     \<lparr>categories = [], threads = [], posts = [], comments = [],
      seq_categories = 0, seq_threads = 0, seq_posts = 0, seq_comments = 0\<rparr>"

definition fresh_db :: database where
  "fresh_db = \<lparr>db_tables = [], db_threads_columns = [], db_indexes = [], db_rows = empty_store\<rparr>"

definition initial_db :: database where
  "initial_db =
     \<lparr>db_tables = [''categories'', ''threads'', ''posts'', ''comments''],
      db_threads_columns =
        [''id'', ''title'', ''posts_count'', ''created_at'', ''last_activity_at'', ''category_id''],
      db_indexes =
        [''idx_threads_last_activity'', ''idx_posts_thread_id'', ''idx_comments_post_id'',
         ''idx_threads_category''],
      db_rows = empty_store\<lparr>categories := seeded 0, seq_categories := 4\<rparr>\<rparr>"

definition legacy_db :: database where
  "legacy_db =
     \<lparr>db_tables = [''threads'', ''posts'', ''comments''],
      db_threads_columns = [''id'', ''title'', ''posts_count'', ''created_at'', ''last_activity_at''],
      db_indexes = [''idx_threads_last_activity'', ''idx_posts_thread_id'', ''idx_comments_post_id''],
      db_rows =
        \<lparr>categories = [],
         threads = [\<lparr>th_id = 7, th_title = u ''Old'', th_posts_count = 1, th_created_at = 50,
                     th_last_activity_at = 50, th_category_id = None\<rparr>],
         posts = [\<lparr>po_id = 9, po_thread_id = 7, po_author = u ''anon'', po_content = u ''first'',
                   po_created_at = 50\<rparr>],
         comments = [],
         seq_categories = 0, seq_threads = 7, seq_posts = 9, seq_comments = 0\<rparr>\<rparr>"

definition migrated_db :: database where
  "migrated_db =
     \<lparr>db_tables = [''threads'', ''posts'', ''comments'', ''categories''],
      db_threads_columns =
        [''id'', ''title'', ''posts_count'', ''created_at'', ''last_activity_at'', ''category_id''],
      db_indexes =
        [''idx_threads_last_activity'', ''idx_posts_thread_id'', ''idx_comments_post_id'',
         ''idx_threads_category''],
      db_rows =
        \<lparr>categories = seeded 0,
         threads = [\<lparr>th_id = 7, th_title = u ''Old'', th_posts_count = 1, th_created_at = 50,
                     th_last_activity_at = 50, th_category_id = Some 1\<rparr>],
         posts = [\<lparr>po_id = 9, po_thread_id = 7, po_author = u ''anon'', po_content = u ''first'',
                   po_created_at = 50\<rparr>],
         comments = [],
         seq_categories = 4, seq_threads = 7, seq_posts = 9, seq_comments = 0\<rparr>\<rparr>"

subsection \<open>The counters of a thread\<close>

text \<open>
  The posts of a thread, the comments on its posts, and the creation times of both.
\<close>

definition posts_of :: "store \<Rightarrow> int \<Rightarrow> post list" where
  "posts_of st tid = filter (\<lambda>p. po_thread_id p = tid) (posts st)"

definition comments_of :: "store \<Rightarrow> int \<Rightarrow> comment list" where
  "comments_of st tid =
     filter (\<lambda>c. list_ex (\<lambda>p. po_id p = co_post_id c \<and> po_thread_id p = tid) (posts st))
       (comments st)"

definition activity_times :: "store \<Rightarrow> int \<Rightarrow> int list" where
  "activity_times st tid =
     map po_created_at (posts_of st tid) @ map co_created_at (comments_of st tid)"

text \<open>
  A thread's counters are consistent when \<^verbatim>\<open>posts_count\<close> is the number of its posts and
  \<^verbatim>\<open>last_activity_at\<close> is the latest creation time among its posts and their comments.
  \<open>counts_consistent\<close> is the part about \<^verbatim>\<open>posts_count\<close> alone.
\<close>

definition thread_consistent :: "store \<Rightarrow> thread \<Rightarrow> bool" where
  "thread_consistent st t =
     (th_posts_count t = int (length (posts_of st (th_id t)))
      \<and> activity_times st (th_id t) \<noteq> []
      \<and> th_last_activity_at t = Max (set (activity_times st (th_id t))))"

definition counters_consistent :: "store \<Rightarrow> bool" where
  "counters_consistent st = list_all (thread_consistent st) (threads st)"

definition counts_consistent :: "store \<Rightarrow> bool" where
  "counts_consistent st =
     list_all (\<lambda>t. th_posts_count t = int (length (posts_of st (th_id t)))) (threads st)"

text \<open>
  What SQLite enforces on the rows: primary keys are unique, and a post's thread and a
  comment's post exist.
\<close>

definition keys_consistent :: "store \<Rightarrow> bool" where
  "keys_consistent st =
     (distinct (map th_id (threads st))
      \<and> distinct (map po_id (posts st))
      \<and> list_all (\<lambda>p. list_ex (\<lambda>t. th_id t = po_thread_id p) (threads st)) (posts st)
      \<and> list_all (\<lambda>c. list_ex (\<lambda>p. po_id p = co_post_id c) (posts st)) (comments st))"

text \<open>No row of the store was created after the clock read \<open>now\<close>.\<close>

definition not_after :: "store \<Rightarrow> int \<Rightarrow> bool" where
  "not_after st now =
     (list_all (\<lambda>p. po_created_at p \<le> now) (posts st)
      \<and> list_all (\<lambda>c. co_created_at c \<le> now) (comments st))"

text \<open>
  A sequence of operations, each with the reading of the clock when it runs. An operation
  that ends in an error leaves the store as it was.
\<close>

datatype operation = CreateThread form | AddReply int form | AddComment int form

definition apply_operation :: "store \<Rightarrow> operation \<times> int \<Rightarrow> store" where
  "apply_operation st x =
     (case (case fst x of
              CreateThread frm \<Rightarrow> create_thread st frm (snd x)
            | AddReply thread_id frm \<Rightarrow> reply st thread_id frm (snd x)
            | AddComment post_id frm \<Rightarrow> comment st post_id frm (snd x)) of
        Inl e \<Rightarrow> st
      | Inr (st1, r) \<Rightarrow> st1)"

definition run_operations :: "store \<Rightarrow> (operation \<times> int) list \<Rightarrow> store" where
  "run_operations st ops = foldl apply_operation st ops"

text \<open>
  The store after \<^verbatim>\<open>init_db\<close> on a new file, two forms, a sequence of operations under a
  clock that never goes back and one under a clock that is set back, and the thread they
  create.
\<close>

definition seeded_store :: store where
  "seeded_store = empty_store\<lparr>categories := seeded 0, seq_categories := 4\<rparr>"

definition hello_form :: form where
  "hello_form = [''title'' \<mapsto> u ''Hello'', ''author'' \<mapsto> [], ''content'' \<mapsto> u ''**bold**'']"

definition reply_form :: form where
  "reply_form = [''content'' \<mapsto> u ''hi'']"

definition steady_clock_ops :: "(operation \<times> int) list" where
  "steady_clock_ops =
     [(CreateThread hello_form, 100), (AddReply 1 reply_form, 150),
      (AddComment 1 reply_form, 150), (AddReply 99 reply_form, 160)]"

definition clock_back_ops :: "(operation \<times> int) list" where
  "clock_back_ops = [(CreateThread hello_form, 100), (AddReply 1 reply_form, 50)]"

definition hello_thread :: "int \<Rightarrow> int \<Rightarrow> thread" where
  "hello_thread n activity =
     \<lparr>th_id = 1, th_title = u ''Hello'', th_posts_count = n, th_created_at = 100,
      th_last_activity_at = activity, th_category_id = Some 1\<rparr>"

text \<open>
  The stores after a thread is created at 100, replied to at 150 and commented on at 170.
\<close>

definition after_create :: store where
  "after_create =
     seeded_store\<lparr>threads := [hello_thread 1 100],
        posts := [\<lparr>po_id = 1, po_thread_id = 1, po_author = u ''anon'', po_content = u ''**bold**'',
                   po_created_at = 100\<rparr>],
        seq_threads := 1, seq_posts := 1\<rparr>"

definition after_reply :: store where
  "after_reply =
     after_create\<lparr>threads := [hello_thread 2 150],
        posts := [\<lparr>po_id = 1, po_thread_id = 1, po_author = u ''anon'', po_content = u ''**bold**'',
                   po_created_at = 100\<rparr>,
                 \<lparr>po_id = 2, po_thread_id = 1, po_author = u ''anon'', po_content = u ''hi'',
                   po_created_at = 150\<rparr>],
        seq_posts := 2\<rparr>"

definition after_comment :: store where
  "after_comment =
     after_reply\<lparr>threads := [hello_thread 2 170],
        comments := [\<lparr>co_id = 1, co_post_id = 1, co_author = u ''anon'', co_content = u ''hi'',
                      co_created_at = 170\<rparr>],
        seq_comments := 1\<rparr>"

section \<open>Properties of \<^verbatim>\<open>clamp_text\<close>\<close>

lemma length_rstrip_le: "length (rstrip s) \<le> length s"
  unfolding rstrip_def using length_dropWhile_le [of py_isspace "rev s"] by simp

text \<open>
  Claim C4, as the code has it. For every text and every bound \<open>max_len\<close>, a text of at
  most \<open>max_len\<close> characters is returned unchanged. For every bound of at least 1, a
  longer text is cut to its first \<open>max_len - 1\<close> characters, stripped of trailing white
  space and followed by one ellipsis character, and the result never has more than
  \<open>max_len\<close> characters.
\<close>

theorem clamp_text_spec:
  "(int (length s) \<le> max_len \<longrightarrow> clamp_text s max_len = s) \<and>
   (1 \<le> max_len \<longrightarrow>
      (max_len < int (length s) \<longrightarrow>
         clamp_text s max_len = rstrip (take (nat (max_len - 1)) s) @ [ellipsis]) \<and>
      int (length (clamp_text s max_len)) \<le> max_len)"
proof (cases "int (length s) \<le> max_len")
  case True
  then show ?thesis by (simp add: clamp_text_def)
next
  case False
  have "(max_len < int (length s) \<longrightarrow>
           clamp_text s max_len = rstrip (take (nat (max_len - 1)) s) @ [ellipsis]) \<and>
        int (length (clamp_text s max_len)) \<le> max_len"
    if m: "1 \<le> max_len"
  proof -
    have eq: "clamp_text s max_len = rstrip (take (nat (max_len - 1)) s) @ [ellipsis]"
      using False m by (simp add: clamp_text_def slice_to_def)
    have "length (rstrip (take (nat (max_len - 1)) s)) \<le> length (take (nat (max_len - 1)) s)"
      by (rule length_rstrip_le)
    also have "\<dots> \<le> nat (max_len - 1)" by simp
    finally have "int (length (clamp_text s max_len)) \<le> max_len"
      using m eq by simp
    with eq show ?thesis by (simp only: simp_thms)
  qed
  then have "1 \<le> max_len \<longrightarrow>
      (max_len < int (length s) \<longrightarrow>
         clamp_text s max_len = rstrip (take (nat (max_len - 1)) s) @ [ellipsis]) \<and>
      int (length (clamp_text s max_len)) \<le> max_len"
    by (rule impI)
  moreover from False have "int (length s) \<le> max_len \<longrightarrow> clamp_text s max_len = s"
    by (simp only: simp_thms)
  ultimately show ?thesis by (rule conjI [rotated])
qed

theorem clamp_text_spec_witness:
  "(1::int) \<le> 7 \<and> clamp_text (u ''hello  world'') 7 = u ''hello'' @ [ellipsis]
    \<and> int (length (clamp_text (u ''hello  world'') 7)) \<le> 7
    \<and> clamp_text (u ''hello'') 7 = u ''hello''
    \<and> clamp_text [] 0 = []"
  using clamp_text_spec [of "u ''hello  world''" 7] clamp_text_spec [of "u ''hello''" 7]
    clamp_text_spec [of "[]" 0]
  by (simp add: u_def rstrip_def py_isspace_def)

text \<open>
  With the bound 0 the slice \<^verbatim>\<open>s[:-1]\<close> drops only the last character: the two
  characters \<^verbatim>\<open>ab\<close> become \<^verbatim>\<open>a\<close> and the ellipsis, longer than the bound.
\<close>

theorem clamp_text_counterexample:
  "clamp_text (u ''ab'') 0 = [0x61, 0x2026] \<and> \<not> int (length (clamp_text (u ''ab'') 0)) \<le> 0"
  by (simp add: clamp_text_def slice_to_def u_def rstrip_def py_isspace_def ellipsis_def)

section \<open>Properties of \<^verbatim>\<open>nl2br\<close>\<close>

lemma br_tag_eq: "br_tag = [LT, 0x62, 0x72, GT]"
  by (simp add: br_tag_def u_def LT_def GT_def)

lemma set_replace_py: "set (replace_py old new s) \<subseteq> set s \<union> set new"
proof (induction old new s rule: replace_py.induct)
  case (1 old new)
  then show ?case by auto
next
  case (2 old new c cs)
  have "set (drop (length old) (c # cs)) \<subseteq> set (c # cs)" by (rule set_drop_subset)
  with 2 show ?case by (auto split: if_splits)
qed

lemma replace_py_removes:
  "a \<notin> set new \<Longrightarrow> a \<notin> set (replace_py [a] new s)"
  by (induction s) auto

lemma replace_py_id:
  "old \<noteq> [] \<Longrightarrow> hd old \<notin> set s \<Longrightarrow> replace_py old new s = s"
proof (induction s)
  case Nil
  then show ?case by simp
next
  case (Cons c cs)
  then have "\<not> prefix old (c # cs)" by (cases old) auto
  with Cons show ?case by simp
qed

lemma only_br_tags_escaped: "escaped s \<Longrightarrow> only_br_tags s"
  by (induction s) (auto simp: escaped_def br_tag_eq)

lemma only_br_tags_append_escaped:
  "escaped xs \<Longrightarrow> only_br_tags (xs @ ys) = only_br_tags ys"
  by (induction xs) (auto simp: escaped_def br_tag_eq)

lemma only_br_tags_br: "only_br_tags (br_tag @ s) = only_br_tags s"
  by (simp add: br_tag_eq)

lemma replace_py_skip:
  "old \<noteq> [] \<Longrightarrow> hd old \<noteq> c \<Longrightarrow> replace_py old new (c # cs) = c # replace_py old new cs"
  by (cases old) auto

lemma only_br_tags_replace:
  assumes old: "old \<noteq> []" "hd old \<notin> set br_tag" "escaped old"
  shows "only_br_tags s \<Longrightarrow> only_br_tags (replace_py old br_tag s)"
proof (induction s rule: length_induct)
  case (1 s)
  show ?case
  proof (cases s)
    case Nil
    with old show ?thesis by simp
  next
    case (Cons c cs)
    show ?thesis
    proof (cases "prefix br_tag s")
      case True
      then obtain r where s: "s = br_tag @ r" by (auto simp: prefix_def)
      have r: "only_br_tags r" using "1.prems" s by (simp add: only_br_tags_br)
      have "length r < length s" using s by (simp add: br_tag_eq)
      with 1 r have IH: "only_br_tags (replace_py old br_tag r)" by blast
      have h: "hd old \<noteq> LT" "hd old \<noteq> 0x62" "hd old \<noteq> 0x72" "hd old \<noteq> GT"
        using old(2) by (auto simp: br_tag_eq)
      have "replace_py old br_tag (LT # 0x62 # 0x72 # GT # r)
              = LT # 0x62 # 0x72 # GT # replace_py old br_tag r"
        using old(1) h by (simp add: replace_py_skip del: replace_py.simps)
      then have "replace_py old br_tag s = br_tag @ replace_py old br_tag r"
        unfolding s by (simp add: br_tag_eq)
      with IH show ?thesis by (simp add: only_br_tags_br)
    next
      case False
      with "1.prems" Cons have c: "c \<noteq> LT" "c \<noteq> GT" and cs: "only_br_tags cs" by auto
      show ?thesis
      proof (cases "prefix old s")
        case True
        then obtain r where s: "s = old @ r" by (auto simp: prefix_def)
        have r: "only_br_tags r"
          using "1.prems" s old(3) by (simp add: only_br_tags_append_escaped)
        have "length r < length s" using s old(1) by simp
        with 1 r have IH: "only_br_tags (replace_py old br_tag r)" by blast
        have d: "drop (length old) (c # cs) = r" using s Cons by (metis append_eq_conv_conj)
        have "replace_py old br_tag (c # cs) = br_tag @ replace_py old br_tag r"
          using True old(1) Cons d by simp
        with IH Cons show ?thesis by (simp add: only_br_tags_br)
      next
        case np: False
        have "length cs < length s" using Cons by simp
        with 1 cs have IH: "only_br_tags (replace_py old br_tag cs)" by blast
        have eq: "replace_py old br_tag s = c # replace_py old br_tag cs"
          using np old(1) Cons by simp
        have "\<not> prefix br_tag (c # replace_py old br_tag cs)"
          using c by (simp add: br_tag_eq)
        with IH c eq show ?thesis by simp
      qed
    qed
  qed
qed


lemma prefix_replace_py:
  "old \<noteq> [] \<Longrightarrow> new \<noteq> [] \<Longrightarrow> hd new \<notin> set q \<Longrightarrow>
     prefix q (replace_py old new cs) \<Longrightarrow> prefix q cs"
proof (induction q arbitrary: cs)
  case Nil
  then show ?case by simp
next
  case (Cons x q)
  show ?case
  proof (cases cs)
    case Nil
    with Cons.prems show ?thesis by simp
  next
    case (Cons y cs')
    show ?thesis
    proof (cases "prefix old cs")
      case True
      with Cons.prems Cons show ?thesis by (cases new) auto
    next
      case False
      with Cons.prems Cons have "x = y" "prefix q (replace_py old new cs')" by auto
      moreover have "hd new \<notin> set q" using Cons.prems by simp
      ultimately show ?thesis using Cons.IH Cons.prems(1,2) Cons by simp
    qed
  qed
qed

lemma replace_py_append_skip:
  "old \<noteq> [] \<Longrightarrow> hd old \<notin> set xs \<Longrightarrow>
     replace_py old new (xs @ ys) = xs @ replace_py old new ys"
  by (induction xs) (auto simp: replace_py_skip simp del: replace_py.simps)

lemma replace_py_match:
  "old \<noteq> [] \<Longrightarrow> replace_py old new (old @ ys) = new @ replace_py old new ys"
  by (cases old) auto

text \<open>On a plain \<^verbatim>\<open>str\<close> every stage is \<^verbatim>\<open>str.replace\<close>.\<close>

lemma nl2br_Str:
  "nl2br (Some (Str s)) =
     (let s1 = replace_py [CR] [LF] (replace_py [CR, LF] [LF] s);
          s2 = replace_py (u ''&lt;br /&gt;'') br_tag
                 (replace_py (u ''&lt;br/&gt;'') br_tag
                   (replace_py (u ''&lt;br&gt;'') br_tag s1))
      in replace_py [LF] br_tag s2)"
  by (cases s) (simp_all add: nl2br_def del: replace_py.simps)

lemma nl2br_Nil: "nl2br (Some (Str [])) = []"
  by (simp add: nl2br_Str u_def)

lemma nl2br_crlf: "nl2br (Some (Str (CR # LF # r))) = br_tag @ nl2br (Some (Str r))"
  by (simp add: nl2br_Str u_def CR_def LF_def)

lemma nl2br_cr: "\<not> prefix [LF] r \<Longrightarrow> nl2br (Some (Str (CR # r))) = br_tag @ nl2br (Some (Str r))"
  by (cases r) (simp_all add: nl2br_Str u_def CR_def LF_def)

lemma nl2br_lf: "nl2br (Some (Str (LF # r))) = br_tag @ nl2br (Some (Str r))"
  by (simp add: nl2br_Str u_def CR_def LF_def)

lemma nl2br_br1: "nl2br (Some (Str (u ''&lt;br&gt;'' @ r))) = br_tag @ nl2br (Some (Str r))"
  by (simp add: nl2br_Str u_def CR_def LF_def br_tag_def)

lemma nl2br_br2: "nl2br (Some (Str (u ''&lt;br/&gt;'' @ r))) = br_tag @ nl2br (Some (Str r))"
  by (simp add: nl2br_Str u_def CR_def LF_def br_tag_def)

lemma nl2br_br3: "nl2br (Some (Str (u ''&lt;br /&gt;'' @ r))) = br_tag @ nl2br (Some (Str r))"
  by (simp add: nl2br_Str u_def CR_def LF_def br_tag_def)

lemma replace_py_keep:
  "old \<noteq> [] \<Longrightarrow> \<not> prefix old (c # cs) \<Longrightarrow>
     replace_py old new (c # cs) = c # replace_py old new cs"
  by simp

lemma nl2br_other:
  assumes c: "c \<noteq> CR" "c \<noteq> LF"
    and n1: "\<not> prefix (u ''&lt;br&gt;'') (c # cs)"
    and n2: "\<not> prefix (u ''&lt;br/&gt;'') (c # cs)"
    and n3: "\<not> prefix (u ''&lt;br /&gt;'') (c # cs)"
  shows "nl2br (Some (Str (c # cs))) = c # nl2br (Some (Str cs))"
proof -
  define s1 where "s1 = replace_py [CR, LF] [LF] cs"
  define s2 where "s2 = replace_py [CR] [LF] s1"
  define s3 where "s3 = replace_py (u ''&lt;br&gt;'') br_tag s2"
  define s4 where "s4 = replace_py (u ''&lt;br/&gt;'') br_tag s3"
  define s5 where "s5 = replace_py (u ''&lt;br /&gt;'') br_tag s4"
  have e1: "replace_py [CR, LF] [LF] (c # cs) = c # s1"
    using c by (simp add: s1_def)
  have e2: "replace_py [CR] [LF] (c # s1) = c # s2"
    using c by (simp add: s2_def)
  have b: "br_tag \<noteq> []" "hd br_tag = LT" by (simp_all add: br_tag_eq)
  have k12: "prefix q s2 \<Longrightarrow> LF \<notin> set q \<Longrightarrow> prefix q cs" for q
  proof -
    assume q: "prefix q s2" "LF \<notin> set q"
    have "prefix q s1"
      using q prefix_replace_py [of "[CR]" "[LF]" q s1] by (simp add: s2_def)
    then show "prefix q cs"
      using q prefix_replace_py [of "[CR, LF]" "[LF]" q cs] by (simp add: s1_def)
  qed
  have k3: "prefix q s3 \<Longrightarrow> LT \<notin> set q \<Longrightarrow> prefix q s2" for q
    using prefix_replace_py [of "u ''&lt;br&gt;''" br_tag q s2] b by (simp add: s3_def u_def)
  have k4: "prefix q s4 \<Longrightarrow> LT \<notin> set q \<Longrightarrow> prefix q s3" for q
    using prefix_replace_py [of "u ''&lt;br/&gt;''" br_tag q s3] b by (simp add: s4_def u_def)
  have m1: "\<not> prefix (u ''&lt;br&gt;'') (c # s2)"
  proof
    assume "prefix (u ''&lt;br&gt;'') (c # s2)"
    then have "c = 0x26" "prefix (tl (u ''&lt;br&gt;'')) s2" by (simp_all add: u_def)
    then have "prefix (tl (u ''&lt;br&gt;'')) cs" by (intro k12) (simp_all add: u_def LF_def)
    with \<open>c = 0x26\<close> n1 show False by (simp add: u_def)
  qed
  have m2: "\<not> prefix (u ''&lt;br/&gt;'') (c # s3)"
  proof
    assume "prefix (u ''&lt;br/&gt;'') (c # s3)"
    then have "c = 0x26" "prefix (tl (u ''&lt;br/&gt;'')) s3" by (simp_all add: u_def)
    then have "prefix (tl (u ''&lt;br/&gt;'')) s2" by (intro k3) (simp_all add: u_def LT_def)
    then have "prefix (tl (u ''&lt;br/&gt;'')) cs" by (intro k12) (simp_all add: u_def LF_def)
    with \<open>c = 0x26\<close> n2 show False by (simp add: u_def)
  qed
  have m3: "\<not> prefix (u ''&lt;br /&gt;'') (c # s4)"
  proof
    assume "prefix (u ''&lt;br /&gt;'') (c # s4)"
    then have "c = 0x26" "prefix (tl (u ''&lt;br /&gt;'')) s4" by (simp_all add: u_def)
    then have "prefix (tl (u ''&lt;br /&gt;'')) s3" by (intro k4) (simp_all add: u_def LT_def)
    then have "prefix (tl (u ''&lt;br /&gt;'')) s2" by (intro k3) (simp_all add: u_def LT_def)
    then have "prefix (tl (u ''&lt;br /&gt;'')) cs" by (intro k12) (simp_all add: u_def LF_def)
    with \<open>c = 0x26\<close> n3 show False by (simp add: u_def)
  qed
  have e3: "replace_py (u ''&lt;br&gt;'') br_tag (c # s2) = c # s3"
    using m1 unfolding s3_def by (intro replace_py_keep) (simp_all add: u_def)
  have e4: "replace_py (u ''&lt;br/&gt;'') br_tag (c # s3) = c # s4"
    using m2 unfolding s4_def by (intro replace_py_keep) (simp_all add: u_def)
  have e5: "replace_py (u ''&lt;br /&gt;'') br_tag (c # s4) = c # s5"
    using m3 unfolding s5_def by (intro replace_py_keep) (simp_all add: u_def)
  have e6: "replace_py [LF] br_tag (c # s5) = c # replace_py [LF] br_tag s5"
    using c by simp
  have "nl2br (Some (Str (c # cs))) = c # replace_py [LF] br_tag s5"
    unfolding nl2br_Str Let_def option.case e1 e2 e3 e4 e5 e6 ..
  also have "replace_py [LF] br_tag s5 = nl2br (Some (Str cs))"
    unfolding nl2br_Str Let_def option.case s5_def s4_def s3_def s2_def s1_def ..
  finally show ?thesis .
qed

lemma nl2br_render_plain: "nl2br (Some (Str s)) = render_plain s"
proof (induction s rule: render_plain.induct)
  case 1
  show ?case by (simp add: nl2br_Nil)
next
  case (2 c cs)
  show ?case
  proof (cases "prefix [CR, LF] (c # cs)")
    case True
    then obtain r where r: "c # cs = CR # LF # r" by (auto simp: prefix_def)
    with 2(1) True show ?thesis by (simp add: nl2br_crlf)
  next
    case ncrlf: False
    show ?thesis
    proof (cases "c = CR \<or> c = LF")
      case True
      with 2(2) ncrlf have IH: "nl2br (Some (Str cs)) = render_plain cs" by simp
      have "nl2br (Some (Str (c # cs))) = br_tag @ nl2br (Some (Str cs))"
        using True ncrlf by (auto simp: nl2br_lf nl2br_cr)
      with IH True ncrlf show ?thesis by auto
    next
      case nnl: False
      show ?thesis
      proof (cases "prefix (u ''&lt;br&gt;'') (c # cs)")
        case True
        then obtain r where r: "c # cs = u ''&lt;br&gt;'' @ r" by (auto simp: prefix_def)
        then have d: "drop (length (u ''&lt;br&gt;'')) (c # cs) = r" by simp
        have "nl2br (Some (Str r)) = render_plain r" using 2(3) ncrlf nnl True d by simp
        then have IH: "nl2br (Some (Str r)) = render_plain r" .
        have rp: "render_plain (c # cs) = br_tag @ render_plain r"
          using ncrlf nnl True d by simp
        have "nl2br (Some (Str (c # cs))) = br_tag @ nl2br (Some (Str r))"
          unfolding r by (rule nl2br_br1)
        with IH rp show ?thesis by simp
      next
        case n1: False
        show ?thesis
        proof (cases "prefix (u ''&lt;br/&gt;'') (c # cs)")
          case True
          then obtain r where r: "c # cs = u ''&lt;br/&gt;'' @ r" by (auto simp: prefix_def)
          then have d: "drop (length (u ''&lt;br/&gt;'')) (c # cs) = r" by simp
          have "nl2br (Some (Str r)) = render_plain r" using 2(4) ncrlf nnl n1 True d by simp
          then have IH: "nl2br (Some (Str r)) = render_plain r" .
          have rp: "render_plain (c # cs) = br_tag @ render_plain r"
            using ncrlf nnl n1 True d by simp
          have "nl2br (Some (Str (c # cs))) = br_tag @ nl2br (Some (Str r))"
            unfolding r by (rule nl2br_br2)
          with IH rp show ?thesis by simp
        next
          case n2: False
          show ?thesis
          proof (cases "prefix (u ''&lt;br /&gt;'') (c # cs)")
            case True
            then obtain r where r: "c # cs = u ''&lt;br /&gt;'' @ r" by (auto simp: prefix_def)
            then have d: "drop (length (u ''&lt;br /&gt;'')) (c # cs) = r" by simp
            have "nl2br (Some (Str r)) = render_plain r" using 2(5) ncrlf nnl n1 n2 True d by simp
            then have IH: "nl2br (Some (Str r)) = render_plain r" .
            have rp: "render_plain (c # cs) = br_tag @ render_plain r"
              using ncrlf nnl n1 n2 True d by simp
            have "nl2br (Some (Str (c # cs))) = br_tag @ nl2br (Some (Str r))"
              unfolding r by (rule nl2br_br3)
            with IH rp show ?thesis by simp
          next
            case n3: False
            have "nl2br (Some (Str cs)) = render_plain cs" using 2(6) ncrlf nnl n1 n2 n3 by simp
            moreover have "nl2br (Some (Str (c # cs))) = c # nl2br (Some (Str cs))"
              using nnl n1 n2 n3 by (intro nl2br_other) auto
            ultimately show ?thesis using ncrlf nnl n1 n2 n3 by simp
          qed
        qed
      qed
    qed
  qed
qed

lemma nl2br_no_newline: "CR \<notin> set (nl2br (Some (Str s))) \<and> LF \<notin> set (nl2br (Some (Str s)))"
proof -
  define s2 where "s2 = replace_py [CR] [LF] (replace_py [CR, LF] [LF] s)"
  define s5 where "s5 = unescape_br s2"
  have out: "nl2br (Some (Str s)) = replace_py [LF] br_tag s5"
    by (simp add: nl2br_Str s5_def s2_def unescape_br_def)
  have "CR \<notin> set s2"
    unfolding s2_def by (rule replace_py_removes) (simp add: CR_def LF_def)
  moreover have "set s5 \<subseteq> set s2 \<union> set br_tag"
    unfolding s5_def unescape_br_def using set_replace_py [where new = br_tag] by blast
  moreover have "set (replace_py [LF] br_tag s5) \<subseteq> set s5 \<union> set br_tag"
    by (rule set_replace_py)
  moreover have "CR \<notin> set br_tag" by (simp add: br_tag_eq CR_def LT_def GT_def)
  ultimately have "CR \<notin> set (nl2br (Some (Str s)))" unfolding out by blast
  moreover have "LF \<notin> set (nl2br (Some (Str s)))"
    unfolding out by (rule replace_py_removes) (simp add: br_tag_eq LF_def LT_def GT_def)
  ultimately show ?thesis by simp
qed

lemma nl2br_only_br_tags:
  assumes "escaped s"
  shows "only_br_tags (nl2br (Some (Str s)))"
proof -
  define s2 where "s2 = replace_py [CR] [LF] (replace_py [CR, LF] [LF] s)"
  have "set s2 \<subseteq> set s \<union> set [LF]"
    unfolding s2_def using set_replace_py [where new = "[LF]"] by blast
  then have "escaped s2"
    using assms by (auto simp: escaped_def LF_def LT_def GT_def)
  then have a0: "only_br_tags s2" by (rule only_br_tags_escaped)
  have a1: "only_br_tags (replace_py (u ''&lt;br&gt;'') br_tag s2)"
    by (rule only_br_tags_replace [OF _ _ _ a0])
      (simp_all add: u_def br_tag_def escaped_def LT_def GT_def)
  have a2: "only_br_tags (replace_py (u ''&lt;br/&gt;'') br_tag
               (replace_py (u ''&lt;br&gt;'') br_tag s2))"
    by (rule only_br_tags_replace [OF _ _ _ a1])
      (simp_all add: u_def br_tag_def escaped_def LT_def GT_def)
  have a3: "only_br_tags (unescape_br s2)"
    unfolding unescape_br_def
    by (rule only_br_tags_replace [OF _ _ _ a2])
      (simp_all add: u_def br_tag_def escaped_def LT_def GT_def)
  have "only_br_tags (replace_py [LF] br_tag (unescape_br s2))"
    by (rule only_br_tags_replace [OF _ _ _ a3])
      (simp_all add: u_def br_tag_def escaped_def LT_def GT_def LF_def)
  then show ?thesis by (simp add: nl2br_Str s2_def unescape_br_def)
qed

text \<open>
  Called with a plain \<^verbatim>\<open>str\<close>, \<^verbatim>\<open>nl2br\<close> is the three stages one after the other: line
  ends normalized to \<^verbatim>\<open>\n\<close>, then the three escaped forms of the break tag replaced by
  \<^verbatim>\<open><br>\<close>, then every remaining \<^verbatim>\<open>\n\<close> replaced by \<^verbatim>\<open><br>\<close>. Nothing else is
  changed: the result is the one-pass rendering, which copies every character outside a
  line end or an escaped break tag. The result holds no \<^verbatim>\<open>\r\<close> and no \<^verbatim>\<open>\n\<close>, and for
  an escaped text its only markup is \<^verbatim>\<open><br>\<close>.
\<close>

lemma nl2br_plain_str:
  "nl2br (Some (Str s)) = newlines_to_br (unescape_br (normalize_newlines s))
   \<and> nl2br (Some (Str s)) = render_plain s
   \<and> CR \<notin> set (nl2br (Some (Str s))) \<and> LF \<notin> set (nl2br (Some (Str s)))
   \<and> (escaped s \<longrightarrow> only_br_tags (nl2br (Some (Str s))))"
proof -
  have "nl2br (Some (Str s)) = newlines_to_br (unescape_br (normalize_newlines s))"
    by (simp add: nl2br_Str newlines_to_br_def unescape_br_def normalize_newlines_def)
  then show ?thesis
    using nl2br_render_plain [of s] nl2br_no_newline [of s] nl2br_only_br_tags [of s] by simp
qed

lemma nl2br_plain_str_example:
  "escaped (u ''a&lt;br&gt;b'' @ [CR, LF] @ u ''c&lt;i&gt;'' @ [CR] @ u ''d&lt;br /&gt;'')
   \<and> nl2br (Some (Str (u ''a&lt;br&gt;b'' @ [CR, LF] @ u ''c&lt;i&gt;'' @ [CR] @ u ''d&lt;br /&gt;'')))
       = u ''a<br>b<br>c&lt;i&gt;<br>d<br>''
   \<and> only_br_tags (nl2br (Some (Str (u ''a&lt;br&gt;b'' @ [CR, LF] @ u ''c&lt;i&gt;'' @ [CR] @ u ''d&lt;br /&gt;''))))"
  using nl2br_plain_str [of "u ''a&lt;br&gt;b'' @ [CR, LF] @ u ''c&lt;i&gt;'' @ [CR] @ u ''d&lt;br /&gt;''"]
  by (simp add: nl2br_Str newlines_to_br_def unescape_br_def normalize_newlines_def
        escaped_def u_def CR_def LF_def LT_def GT_def br_tag_def)

text \<open>
  Called with a \<^verbatim>\<open>Markup\<close>, every stage escapes its two literals before it replaces:
  the line ends are normalized as before, but what is looked for is the twice escaped
  break tag, and what is put in is the escaped one.
\<close>

lemma nl2br_Markup:
  "nl2br (Some (Markup s)) =
     replace_py [LF] (u ''&lt;br&gt;'')
       (replace_py (u ''&amp;lt;br /&amp;gt;'') (u ''&lt;br&gt;'')
         (replace_py (u ''&amp;lt;br/&amp;gt;'') (u ''&lt;br&gt;'')
           (replace_py (u ''&amp;lt;br&amp;gt;'') (u ''&lt;br&gt;'')
             (replace_py [CR] [LF] (replace_py [CR, LF] [LF] s)))))"
proof -
  have e: "html_escape [CR] = [CR]" "html_escape [LF] = [LF]" "html_escape [CR, LF] = [CR, LF]"
    "html_escape br_tag = u ''&lt;br&gt;''"
    "html_escape (u ''&lt;br&gt;'') = u ''&amp;lt;br&amp;gt;''"
    "html_escape (u ''&lt;br/&gt;'') = u ''&amp;lt;br/&amp;gt;''"
    "html_escape (u ''&lt;br /&gt;'') = u ''&amp;lt;br /&amp;gt;''"
    by (simp_all add: html_escape_def u_def CR_def LF_def br_tag_def)
  show ?thesis
    by (cases s) (simp_all add: nl2br_def e del: replace_py.simps, simp add: u_def)
qed

text \<open>
  So no angle bracket comes out of \<^verbatim>\<open>nl2br\<close> for an escaped \<^verbatim>\<open>Markup\<close>: no break tag
  is produced, whatever the text.
\<close>

lemma nl2br_Markup_no_tag:
  assumes "escaped s"
  shows "escaped (nl2br (Some (Markup s)))"
proof -
  have s: "set (replace_py old new x) \<subseteq> set x \<union> set new" for old new x :: pystr
    by (rule set_replace_py)
  have n: "LT \<notin> set (u ''&lt;br&gt;'')" "GT \<notin> set (u ''&lt;br&gt;'')"
    "LT \<notin> set [LF]" "GT \<notin> set [LF]"
    by (simp_all add: u_def LT_def GT_def LF_def)
  have r: "escaped (replace_py old new x)"
    if "escaped x" "LT \<notin> set new" "GT \<notin> set new" for old new x
    using that s [of old new x] unfolding escaped_def by blast
  show ?thesis
    unfolding nl2br_Markup by (intro r assms n)
qed

text \<open>
  Claim C9, for the argument the templates pass. The docstring of \<^verbatim>\<open>nl2br\<close> gives its
  use as \<^verbatim>\<open>| e | nl2br\<close>, so the argument is the \<^verbatim>\<open>Markup\<close> that the \<^verbatim>\<open>e\<close> filter made.
  For the text \<^verbatim>\<open>a\nb\<close> the filter \<^verbatim>\<open>e\<close> gives \<^verbatim>\<open>Markup("a\nb")\<close> and \<^verbatim>\<open>nl2br\<close> returns
  \<^verbatim>\<open>a&lt;br&gt;b\<close>, where the three stages of the claim give \<^verbatim>\<open>a<br>b\<close>: the reader sees
  the four characters of the tag and no line break. For the text \<^verbatim>\<open>x<br>y\<close> the filter
  \<^verbatim>\<open>e\<close> gives \<^verbatim>\<open>Markup("x&lt;br&gt;y")\<close> and \<^verbatim>\<open>nl2br\<close> returns it unchanged, where the
  three stages give \<^verbatim>\<open>x<br>y\<close>.
\<close>

theorem nl2br_markup_input:
  "escape (Str (u ''a'' @ [LF] @ u ''b'')) = Markup (u ''a'' @ [LF] @ u ''b'')
   \<and> nl2br (Some (Markup (u ''a'' @ [LF] @ u ''b''))) = u ''a&lt;br&gt;b''
   \<and> newlines_to_br (unescape_br (normalize_newlines (u ''a'' @ [LF] @ u ''b''))) = u ''a<br>b''
   \<and> escape (Str (u ''x<br>y'')) = Markup (u ''x&lt;br&gt;y'')
   \<and> nl2br (Some (Markup (u ''x&lt;br&gt;y''))) = u ''x&lt;br&gt;y''
   \<and> newlines_to_br (unescape_br (normalize_newlines (u ''x&lt;br&gt;y''))) = u ''x<br>y''"
  by (simp add: nl2br_def html_escape_def newlines_to_br_def unescape_br_def
        normalize_newlines_def u_def CR_def LF_def br_tag_def)

section \<open>Degenerate input of the renderers\<close>

text \<open>
  Claim C10. \<^verbatim>\<open>nl2br\<close> returns the empty fragment for \<^verbatim>\<open>None\<close> and for the empty
  string, plain or \<^verbatim>\<open>Markup\<close>. \<^verbatim>\<open>markdown_to_html\<close> turns \<^verbatim>\<open>None\<close> into the empty string before it calls the
  libraries, so \<^verbatim>\<open>None\<close> and the empty string give the same result, and that result is a
  fragment whenever the renderer and the sanitizer return one for the empty string.
\<close>

theorem renderers_degenerate_input:
  "nl2br None = [] \<and> nl2br (Some (Str [])) = [] \<and> nl2br (Some (Markup [])) = []
   \<and> markdown_to_html md_render bleach_clean None
       = markdown_to_html md_render bleach_clean (Some [])
   \<and> (md_render [] = Inr html
        \<and> bleach_clean html ALLOWED_TAGS ALLOWED_ATTRS ALLOWED_PROTOCOLS True = Inr cleaned
        \<longrightarrow> markdown_to_html md_render bleach_clean None = Inr cleaned
          \<and> markdown_to_html md_render bleach_clean (Some []) = Inr cleaned)"
  by (simp add: nl2br_def markdown_to_html_def u_def)

theorem renderers_degenerate_input_witness:
  "(\<lambda>s. Inr (if s = [] then [] else u ''<p>'' @ s @ u ''</p>'')) ([] :: pystr)
       = (Inr [] :: error + pystr)
   \<and> markdown_to_html (\<lambda>s. Inr (if s = [] then [] else u ''<p>'' @ s @ u ''</p>''))
        (\<lambda>h tags attrs protocols strip. Inr h) None = Inr []
   \<and> markdown_to_html (\<lambda>s. Inr (if s = [] then [] else u ''<p>'' @ s @ u ''</p>''))
        (\<lambda>h tags attrs protocols strip. Inr h) (Some []) = Inr []
   \<and> nl2br None = []"
  using renderers_degenerate_input
    [where md_render = "\<lambda>s. Inr (if s = [] then [] else u ''<p>'' @ s @ u ''</p>'')"
       and bleach_clean = "\<lambda>h tags attrs protocols strip. Inr h"
       and html = "[]" and cleaned = "[]"]
  by simp

section \<open>Properties of the CSRF guard\<close>

text \<open>
  Claim C2. For every POST request, whatever view it is routed to: when the session has
  a token and the submitted token is missing, empty or different, the request ends with
  status 400, the view is not called and the store is unchanged. When the session has no
  token yet, the guard first issues one, the value \<open>fresh\<close> drawn while the request is
  handled, and then rejects the request in the same way: the form was sent before the
  draw, and every submitted token that is missing, empty or different from the value
  drawn is refused.
\<close>

theorem csrf_guard:
  assumes "req_method req = ''POST''"
  shows
    "(sess ''csrf_token'' = Some t \<and>
        (field (req_form req) ''csrf_token'' = [] \<or> field (req_form req) ''csrf_token'' \<noteq> t)
      \<longrightarrow> full_dispatch_request view sess req fresh st = (sess, st, Inl (Abort 400)))
     \<and> (sess ''csrf_token'' = None \<and>
        (field (req_form req) ''csrf_token'' = [] \<or> field (req_form req) ''csrf_token'' \<noteq> fresh)
      \<longrightarrow> full_dispatch_request view sess req fresh st
            = (sess(''csrf_token'' \<mapsto> fresh), st, Inl (Abort 400)))"
  using assms
  by (auto simp: full_dispatch_request_def csrf_and_session_bootstrap_def field_def
        split: option.splits)

theorem csrf_guard_witness:
  "req_method forged_request = ''POST''
   \<and> full_dispatch_request (reply_view 1 200) [''csrf_token'' \<mapsto> token0] forged_request []
         one_thread_store
       = ([''csrf_token'' \<mapsto> token0], one_thread_store, Inl (Abort 400))
   \<and> full_dispatch_request (reply_view 1 200) Map.empty forged_request token0 one_thread_store
       = ([''csrf_token'' \<mapsto> token0], one_thread_store, Inl (Abort 400))"
  using csrf_guard [of forged_request "[''csrf_token'' \<mapsto> token0]" token0 "reply_view 1 200"
          "[]" one_thread_store]
    csrf_guard [of forged_request Map.empty token0 "reply_view 1 200" token0 one_thread_store]
  by (simp add: forged_request_def token0_def field_def u_def)

section \<open>Exceptions that no handler catches\<close>

lemma py_int_huge: "py_int (u ''99999999999999999999'') = Inr 99999999999999999999"
  by (simp add: py_int_def u_def int_isspace_def py_isspace_def py_decimal_def decimal_blocks_def
        max_str_digits_def)

text \<open>
  Claim C6 at a failing input. \<^verbatim>\<open>str.isdigit\<close> accepts SUPERSCRIPT TWO and \<^verbatim>\<open>int\<close>
  rejects it: with this \<^verbatim>\<open>category_id\<close> the handler ends in the \<^verbatim>\<open>ValueError\<close> of
  \<^verbatim>\<open>int\<close> and creates no thread, where the claim has the thread created in the
  lowest-id category.
\<close>

theorem create_thread_superscript_digit:
  "isdigit [0xB2] \<and> py_int [0xB2] = Inl ValueError
   \<and> create_thread one_thread_store superscript_two_form 200 = Inl ValueError"
  by (simp add: create_thread_def superscript_two_form_def field_def strip_def lstrip_def
        rstrip_def py_isspace_def u_def clamp_text_def Let_def isdigit_def py_isdigit_char_def
        digit_only_ranges_def py_decimal_def decimal_blocks_def py_int_def int_isspace_def
        max_str_digits_def)

text \<open>
  Claim C7 at a failing input. The page 99999999999999999999 is far beyond the last
  page; the offset computed from it does not fit a 64-bit integer, and both listings end
  in the \<^verbatim>\<open>OverflowError\<close> of the parameter binding, where the claim has an empty list.
\<close>

theorem index_huge_page:
  "index st huge_page_args = Inl OverflowError
   \<and> thread_view one_thread_store 1 huge_page_args = Inl OverflowError"
  by (simp add: index_def thread_view_def huge_page_args_def parse_page_def py_int_huge
        limit_offset_def sqlite_int_def Let_def one_thread_store_def)

text \<open>
  Claim C8 at a failing input. The identifier \<open>2^63\<close> names no thread and no post; the
  lookup ends in the \<^verbatim>\<open>OverflowError\<close> of the parameter binding, where the claim has the
  status 404.
\<close>

theorem reply_comment_id_out_of_range:
  "reply st 9223372036854775808 frm now = Inl OverflowError
   \<and> comment st 9223372036854775808 frm now = Inl OverflowError"
  by (simp add: reply_def comment_def select_thread_exists_def select_post_by_id_def
        sqlite_int_def)

section \<open>Properties of \<^verbatim>\<open>init_db\<close>\<close>

lemma create_tables_tables [simp]:
  "set (db_tables (create_categories db)) = insert ''categories'' (set (db_tables db))"
  "set (db_tables (create_threads db)) = insert ''threads'' (set (db_tables db))"
  "set (db_tables (create_posts db)) = insert ''posts'' (set (db_tables db))"
  "set (db_tables (create_comments db)) = insert ''comments'' (set (db_tables db))"
  "db_tables (create_index n db) = db_tables db"
  by (auto simp: create_categories_def create_threads_def create_posts_def create_comments_def
        create_index_def)

lemma create_tables_indexes [simp]:
  "db_indexes (create_categories db) = db_indexes db"
  "db_indexes (create_threads db) = db_indexes db"
  "db_indexes (create_posts db) = db_indexes db"
  "db_indexes (create_comments db) = db_indexes db"
  "set (db_indexes (create_index n db)) = insert n (set (db_indexes db))"
  by (auto simp: create_categories_def create_threads_def create_posts_def create_comments_def
        create_index_def)

lemma create_present [simp]:
  "''categories'' \<in> set (db_tables db) \<Longrightarrow> create_categories db = db"
  "''threads'' \<in> set (db_tables db) \<Longrightarrow> create_threads db = db"
  "''posts'' \<in> set (db_tables db) \<Longrightarrow> create_posts db = db"
  "''comments'' \<in> set (db_tables db) \<Longrightarrow> create_comments db = db"
  "n \<in> set (db_indexes db) \<Longrightarrow> create_index n db = db"
  by (simp_all add: create_categories_def create_threads_def create_posts_def
        create_comments_def create_index_def)

lemma create_script_tables:
  "list_all (\<lambda>n. n \<in> set (db_tables (create_script db))) required_tables"
  by (simp add: create_script_def required_tables_def)

lemma create_script_indexes:
  "list_all (\<lambda>n. n \<in> set (db_indexes (create_script db))) script_indexes"
  by (simp add: create_script_def script_indexes_def)

lemma create_script_id:
  "list_all (\<lambda>n. n \<in> set (db_tables db)) required_tables \<Longrightarrow>
   list_all (\<lambda>n. n \<in> set (db_indexes db)) script_indexes \<Longrightarrow> create_script db = db"
  by (simp add: create_script_def required_tables_def script_indexes_def)

lemma init_db_unfold:
  "init_db db =
     (let db1 = create_script db;
          cols = set (db_threads_columns db1);
          db2 = (if ''category_id'' \<notin> cols
                 then create_index ''idx_threads_category'' (add_category_id_column db1)
                 else db1);
          existing = length (categories (db_rows db2))
      in case (if existing = 0 then executemany insert_category (db_rows db2) defaults
               else Inr (db_rows db2)) of
           Inl e \<Rightarrow> Inl e
         | Inr st3 \<Rightarrow>
             (case select_first_category st3 of
                None \<Rightarrow> Inr (db2\<lparr>db_rows := st3\<rparr>)
              | Some row \<Rightarrow> Inr (db2\<lparr>db_rows := backfill_category st3 (cat_id row)\<rparr>)))"
  unfolding init_db_def create_script_def ..

lemma select_first_category_None:
  "select_first_category st = None \<longleftrightarrow> categories st = []"
proof -
  have "length (sort_key cat_id (categories st)) = length (categories st)" by simp
  then show ?thesis
    unfolding select_first_category_def
    by (cases "sort_key cat_id (categories st)"; cases "categories st") auto
qed

lemma backfill_category_id:
  "list_all (\<lambda>t. th_category_id t \<noteq> None) (threads st) \<Longrightarrow> backfill_category st d = st"
proof -
  assume a: "list_all (\<lambda>t. th_category_id t \<noteq> None) (threads st)"
  have "map (\<lambda>t. if th_category_id t = None
                   then t\<lparr>th_category_id :=
                            (case th_category_id t of None \<Rightarrow> Some d | Some i \<Rightarrow> Some i)\<rparr>
                   else t) (threads st) = threads st"
    using a by (induction "threads st") (auto simp: list_all_iff map_idI)
  then show ?thesis by (simp add: backfill_category_def)
qed

lemma backfill_category_all:
  "list_all (\<lambda>t. th_category_id t \<noteq> None) (threads (backfill_category st d))"
  by (auto simp: backfill_category_def list_all_iff)

lemma init_db_current: "schema_current db \<Longrightarrow> init_db db = Inr db"
proof -
  assume c: "schema_current db"
  then have s: "create_script db = db"
    by (simp add: schema_current_def create_script_id)
  from c obtain row where r: "select_first_category (db_rows db) = Some row"
    using select_first_category_None [of "db_rows db"] by (auto simp: schema_current_def)
  from c have b: "backfill_category (db_rows db) (cat_id row) = db_rows db"
    by (simp add: schema_current_def backfill_category_id)
  show ?thesis
    using c r b by (simp add: init_db_unfold s schema_current_def)
qed

lemma insert_category_Inr:
  "insert_category st d = Inr st1 \<Longrightarrow>
     st1 = st\<lparr>categories := categories st @
                 [\<lparr>cat_id = Max (set (seq_categories st # map cat_id (categories st))) + 1,
                   cat_slug = fst d, cat_name = snd d\<rparr>],
               seq_categories := Max (set (seq_categories st # map cat_id (categories st))) + 1\<rparr>"
  by (auto simp: insert_category_def next_rowid_def Let_def split: if_splits)

lemma seed_empty:
  assumes "categories st = []" and "executemany insert_category st defaults = Inr st3"
  shows "st3 = st\<lparr>categories := seeded (seq_categories st), seq_categories := seq_categories st + 4\<rparr>"
proof -
  from assms(2) obtain s1 s2 s3 where
    i1: "insert_category st (u ''technology'', u ''Technology'') = Inr s1" and
    i2: "insert_category s1 (u ''learning'', u ''Learning'') = Inr s2" and
    i3: "insert_category s2 (u ''politics'', u ''Politics'') = Inr s3" and
    i4: "insert_category s3 (u ''secret'', u ''Secret'') = Inr st3"
    by (auto simp: defaults_def split: sum.splits)
  have e1: "s1 = st\<lparr>categories := [\<lparr>cat_id = seq_categories st + 1, cat_slug = u ''technology'',
                cat_name = u ''Technology''\<rparr>], seq_categories := seq_categories st + 1\<rparr>"
    using insert_category_Inr [OF i1] assms(1) by simp
  have e2: "s2 = st\<lparr>categories := [\<lparr>cat_id = seq_categories st + 1, cat_slug = u ''technology'',
                cat_name = u ''Technology''\<rparr>,
              \<lparr>cat_id = seq_categories st + 2, cat_slug = u ''learning'', cat_name = u ''Learning''\<rparr>],
             seq_categories := seq_categories st + 2\<rparr>"
    using insert_category_Inr [OF i2] unfolding e1 by simp
  have e3: "s3 = st\<lparr>categories := [\<lparr>cat_id = seq_categories st + 1, cat_slug = u ''technology'',
                cat_name = u ''Technology''\<rparr>,
              \<lparr>cat_id = seq_categories st + 2, cat_slug = u ''learning'', cat_name = u ''Learning''\<rparr>,
              \<lparr>cat_id = seq_categories st + 3, cat_slug = u ''politics'', cat_name = u ''Politics''\<rparr>],
             seq_categories := seq_categories st + 3\<rparr>"
    using insert_category_Inr [OF i3] unfolding e2 by simp
  show ?thesis
    using insert_category_Inr [OF i4] unfolding e3 seeded_def by simp
qed

lemma create_rows_categories [simp]:
  "categories (db_rows (create_categories db))
     = (if ''categories'' \<in> set (db_tables db) then categories (db_rows db) else [])"
  "seq_categories (db_rows (create_categories db))
     = (if ''categories'' \<in> set (db_tables db) then seq_categories (db_rows db) else 0)"
  "categories (db_rows (create_threads db)) = categories (db_rows db)"
  "seq_categories (db_rows (create_threads db)) = seq_categories (db_rows db)"
  "categories (db_rows (create_posts db)) = categories (db_rows db)"
  "seq_categories (db_rows (create_posts db)) = seq_categories (db_rows db)"
  "categories (db_rows (create_comments db)) = categories (db_rows db)"
  "seq_categories (db_rows (create_comments db)) = seq_categories (db_rows db)"
  "db_rows (create_index n db) = db_rows db"
  by (simp_all add: create_categories_def create_threads_def create_posts_def
        create_comments_def create_index_def)

lemma create_columns [simp]:
  "db_threads_columns (create_categories db) = db_threads_columns db"
  "''threads'' \<in> set (db_tables db) \<Longrightarrow> db_threads_columns (create_threads db) = db_threads_columns db"
  "db_threads_columns (create_posts db) = db_threads_columns db"
  "db_threads_columns (create_comments db) = db_threads_columns db"
  "db_threads_columns (create_index n db) = db_threads_columns db"
  by (simp_all add: create_categories_def create_threads_def create_posts_def
        create_comments_def create_index_def)

lemma create_script_categories:
  "categories (db_rows (create_script db))
     = (if ''categories'' \<in> set (db_tables db) then categories (db_rows db) else [])"
  "seq_categories (db_rows (create_script db))
     = (if ''categories'' \<in> set (db_tables db) then seq_categories (db_rows db) else 0)"
  by (simp_all add: create_script_def)

lemma create_script_columns:
  "''threads'' \<in> set (db_tables db) \<Longrightarrow>
     db_threads_columns (create_script db) = db_threads_columns db"
  by (simp add: create_script_def)

lemma create_script_index_set:
  "set (db_indexes (create_script db)) = set (db_indexes db) \<union> set script_indexes"
  by (auto simp: create_script_def script_indexes_def)

lemma migrate_facts:
  "db_tables (migrate d) = db_tables d"
  "set (db_indexes d) \<subseteq> set (db_indexes (migrate d))"
  "''category_id'' \<in> set (db_threads_columns (migrate d))"
  "categories (db_rows (migrate d)) = categories (db_rows d)"
  "seq_categories (db_rows (migrate d)) = seq_categories (db_rows d)"
  by (auto simp: migrate_def add_category_id_column_def create_index_def)

lemma migrate_skip:
  "''category_id'' \<in> set (db_threads_columns d) \<Longrightarrow> migrate d = d"
  by (simp add: migrate_def)

lemma migrate_run:
  "''category_id'' \<notin> set (db_threads_columns d) \<Longrightarrow>
     db_threads_columns (migrate d) = db_threads_columns d @ [''category_id'']
     \<and> ''idx_threads_category'' \<in> set (db_indexes (migrate d))"
  by (simp add: migrate_def add_category_id_column_def create_index_def)

lemma init_db_migrate:
  "init_db db =
     (case (if length (categories (db_rows (migrate (create_script db)))) = 0
            then executemany insert_category (db_rows (migrate (create_script db))) defaults
            else Inr (db_rows (migrate (create_script db)))) of
           Inl e \<Rightarrow> Inl e
         | Inr st3 \<Rightarrow>
             (case select_first_category st3 of
                None \<Rightarrow> Inr ((migrate (create_script db))\<lparr>db_rows := st3\<rparr>)
              | Some row \<Rightarrow>
                  Inr ((migrate (create_script db))\<lparr>db_rows := backfill_category st3 (cat_id row)\<rparr>)))"
  unfolding init_db_def create_script_def migrate_def Let_def ..

lemma init_db_Inr:
  assumes "init_db db = Inr db1"
  shows "\<exists>st3 row.
    (if categories (db_rows (migrate (create_script db))) = []
      then executemany insert_category (db_rows (migrate (create_script db))) defaults
      else Inr (db_rows (migrate (create_script db)))) = Inr st3
    \<and> select_first_category st3 = Some row
    \<and> db1 = (migrate (create_script db))\<lparr>db_rows := backfill_category st3 (cat_id row)\<rparr>"
proof -
  define d2 where "d2 = migrate (create_script db)"
  define seed where
    "seed = (if categories (db_rows d2) = []
             then executemany insert_category (db_rows d2) defaults else Inr (db_rows d2))"
  have u: "init_db db = (case seed of
           Inl e \<Rightarrow> Inl e
         | Inr st3 \<Rightarrow>
             (case select_first_category st3 of
                None \<Rightarrow> Inr (d2\<lparr>db_rows := st3\<rparr>)
              | Some row \<Rightarrow> Inr (d2\<lparr>db_rows := backfill_category st3 (cat_id row)\<rparr>)))"
    unfolding init_db_migrate seed_def d2_def by simp
  show ?thesis
  proof (cases seed)
    case (Inl e)
    with u assms show ?thesis by simp
  next
    case (Inr st3)
    have c: "categories st3 \<noteq> []"
    proof (cases "categories (db_rows d2) = []")
      case True
      with Inr have "executemany insert_category (db_rows d2) defaults = Inr st3"
        by (simp add: seed_def)
      from seed_empty [OF True this] show ?thesis by (simp add: seeded_def)
    next
      case False
      with Inr show ?thesis by (auto simp: seed_def)
    qed
    then obtain row where row: "select_first_category st3 = Some row"
      using select_first_category_None [of st3] by (cases "select_first_category st3") auto
    with u assms Inr have "db1 = d2\<lparr>db_rows := backfill_category st3 (cat_id row)\<rparr>" by simp
    with Inr row show ?thesis unfolding seed_def d2_def by blast
  qed
qed

lemma init_db_schema_current:
  assumes "init_db db = Inr db1"
  shows "schema_current db1"
proof -
  from init_db_Inr [OF assms] obtain st3 row where
    s: "(if categories (db_rows (migrate (create_script db))) = []
      then executemany insert_category (db_rows (migrate (create_script db))) defaults
      else Inr (db_rows (migrate (create_script db)))) = Inr st3"
    and db1: "db1 = (migrate (create_script db))\<lparr>db_rows := backfill_category st3 (cat_id row)\<rparr>"
    and row: "select_first_category st3 = Some row"
    by blast
  have c: "categories st3 \<noteq> []"
    using row select_first_category_None [of st3] by auto
  have t: "list_all (\<lambda>n. n \<in> set (db_tables db1)) required_tables"
    using create_script_tables [of db] by (simp add: db1 migrate_facts)
  have i: "list_all (\<lambda>n. n \<in> set (db_indexes db1)) script_indexes"
    using create_script_indexes [of db] migrate_facts(2) [of "create_script db"]
    by (auto simp: db1 list_all_iff)
  show ?thesis
    unfolding schema_current_def
    using t i c backfill_category_all [of st3 "cat_id row"]
    by (simp add: db1 migrate_facts backfill_category_def)
qed

lemmas init_db_eval =
  init_db_def create_index_def create_comments_def create_posts_def create_threads_def
  create_categories_def add_category_id_column_def defaults_def insert_category_def
  next_rowid_def select_first_category_def backfill_category_def Let_def seeded_def

lemma init_db_fresh: "init_db fresh_db = Inr initial_db"
  by (simp add: init_db_eval fresh_db_def initial_db_def empty_store_def)

lemma init_db_legacy: "init_db legacy_db = Inr migrated_db"
  by (simp add: init_db_eval legacy_db_def migrated_db_def)

text \<open>
  Claim C5. Whenever \<^verbatim>\<open>init_db\<close> returns, a second call returns the same database:
  schema and rows are identical. The categories are left as they are when there is one,
  and are the four defaults, once each, when the table is empty or new. The migration is
  decided by the columns the table has: with \<^verbatim>\<open>category_id\<close> present the columns stay
  as they are and the index of the migration is not created; without it the column and
  the index are added.
\<close>

theorem init_db_idempotent:
  assumes "init_db db = Inr db1"
  shows "init_db db1 = Inr db1
     \<and> (''categories'' \<in> set (db_tables db) \<and> categories (db_rows db) \<noteq> []
          \<longrightarrow> categories (db_rows db1) = categories (db_rows db))
     \<and> (''categories'' \<in> set (db_tables db) \<and> categories (db_rows db) = []
          \<longrightarrow> categories (db_rows db1) = seeded (seq_categories (db_rows db)))
     \<and> (''categories'' \<notin> set (db_tables db) \<longrightarrow> categories (db_rows db1) = seeded 0)
     \<and> (''threads'' \<in> set (db_tables db) \<and> ''category_id'' \<in> set (db_threads_columns db)
          \<longrightarrow> db_threads_columns db1 = db_threads_columns db
              \<and> (''idx_threads_category'' \<in> set (db_indexes db1)
                    \<longleftrightarrow> ''idx_threads_category'' \<in> set (db_indexes db)))
     \<and> (''threads'' \<in> set (db_tables db) \<and> ''category_id'' \<notin> set (db_threads_columns db)
          \<longrightarrow> db_threads_columns db1 = db_threads_columns db @ [''category_id'']
              \<and> ''idx_threads_category'' \<in> set (db_indexes db1))"
proof -
  define d1 where "d1 = create_script db"
  from init_db_Inr [OF assms] obtain st3 and row :: category where
    s: "(if categories (db_rows (migrate d1)) = []
      then executemany insert_category (db_rows (migrate d1)) defaults
      else Inr (db_rows (migrate d1))) = Inr st3"
    and db1: "db1 = (migrate d1)\<lparr>db_rows := backfill_category st3 (cat_id row)\<rparr>"
    unfolding d1_def by blast
  have idem: "init_db db1 = Inr db1"
    using assms by (intro init_db_current init_db_schema_current)
  have cats: "categories (db_rows db1) = categories st3"
    by (simp add: db1 backfill_category_def)
  have c0: "categories (db_rows (migrate d1))
              = (if ''categories'' \<in> set (db_tables db) then categories (db_rows db) else [])"
    and q0: "seq_categories (db_rows (migrate d1))
              = (if ''categories'' \<in> set (db_tables db) then seq_categories (db_rows db) else 0)"
    by (simp_all add: migrate_facts d1_def create_script_categories)
  have keep: "categories (db_rows db1) = categories (db_rows db)"
    if "''categories'' \<in> set (db_tables db)" "categories (db_rows db) \<noteq> []"
    using s that c0 cats by auto
  have seed: "categories (db_rows db1) = seeded (seq_categories (db_rows (migrate d1)))"
    if "categories (db_rows (migrate d1)) = []"
  proof -
    from s that have "executemany insert_category (db_rows (migrate d1)) defaults = Inr st3"
      by simp
    from seed_empty [OF that this] show ?thesis by (simp add: cats)
  qed
  have cols: "db_threads_columns db1 = db_threads_columns (migrate d1)"
    and idx: "db_indexes db1 = db_indexes (migrate d1)"
    by (simp_all add: db1)
  have skip: "db_threads_columns db1 = db_threads_columns db
              \<and> (''idx_threads_category'' \<in> set (db_indexes db1)
                    \<longleftrightarrow> ''idx_threads_category'' \<in> set (db_indexes db))"
    if "''threads'' \<in> set (db_tables db)" "''category_id'' \<in> set (db_threads_columns db)"
  proof -
    have "db_threads_columns d1 = db_threads_columns db"
      using that by (simp add: d1_def create_script_columns)
    with that have "migrate d1 = d1" by (simp add: migrate_skip)
    then show ?thesis
      using \<open>db_threads_columns d1 = db_threads_columns db\<close> create_script_index_set [of db]
      by (simp add: cols idx d1_def script_indexes_def)
  qed
  have run: "db_threads_columns db1 = db_threads_columns db @ [''category_id'']
              \<and> ''idx_threads_category'' \<in> set (db_indexes db1)"
    if "''threads'' \<in> set (db_tables db)" "''category_id'' \<notin> set (db_threads_columns db)"
  proof -
    have "db_threads_columns d1 = db_threads_columns db"
      using that by (simp add: d1_def create_script_columns)
    with that migrate_run [of d1] show ?thesis by (simp add: cols idx)
  qed
  show ?thesis
    using idem keep seed skip run c0 q0 by auto
qed

theorem init_db_idempotent_witness:
  "init_db fresh_db = Inr initial_db \<and> init_db initial_db = Inr initial_db
   \<and> categories (db_rows initial_db) = seeded 0
   \<and> init_db legacy_db = Inr migrated_db \<and> init_db migrated_db = Inr migrated_db
   \<and> categories (db_rows migrated_db) = seeded 0
   \<and> ''idx_threads_category'' \<in> set (db_indexes migrated_db)"
  using init_db_idempotent [OF init_db_fresh] init_db_idempotent [OF init_db_legacy]
    init_db_fresh init_db_legacy
  by (simp add: fresh_db_def legacy_db_def)

section \<open>Properties of the counters\<close>

lemma next_rowid_fresh:
  "next_rowid seq ids = Inr i \<Longrightarrow> j \<in> set ids \<Longrightarrow> j < i"
proof -
  assume a: "next_rowid seq ids = Inr i" and j: "j \<in> set ids"
  have "j \<le> Max (set (seq # ids))" using j by (intro Max_ge) auto
  with a show ?thesis by (auto simp: next_rowid_def Let_def split: if_splits)
qed

lemma insert_post_Inr:
  assumes "insert_post st T a c now = Inr st1"
  shows "\<exists>i. st1 = st\<lparr>posts := posts st @
                       [\<lparr>po_id = i, po_thread_id = T, po_author = a, po_content = c,
                         po_created_at = now\<rparr>], seq_posts := i\<rparr>
             \<and> (\<forall>p\<in>set (posts st). po_id p < i)
             \<and> (\<exists>t\<in>set (threads st). th_id t = T)"
proof -
  from assms obtain i where i: "next_rowid (seq_posts st) (map po_id (posts st)) = Inr i"
    and e: "list_ex (\<lambda>t. th_id t = T) (threads st)"
    and s: "st1 = st\<lparr>posts := posts st @
                       [\<lparr>po_id = i, po_thread_id = T, po_author = a, po_content = c,
                         po_created_at = now\<rparr>], seq_posts := i\<rparr>"
    by (auto simp: insert_post_def split: if_splits sum.splits)
  have "\<forall>p\<in>set (posts st). po_id p < i"
    using next_rowid_fresh [OF i] by auto
  with s e show ?thesis by (auto simp: list_ex_iff)
qed

lemma insert_thread_Inr:
  assumes "insert_thread st title now cid = Inr (st1, j)"
  shows "st1 = st\<lparr>threads := threads st @
                  [\<lparr>th_id = j, th_title = title, th_posts_count = 0, th_created_at = now,
                    th_last_activity_at = now, th_category_id = Some cid\<rparr>], seq_threads := j\<rparr>
         \<and> (\<forall>t\<in>set (threads st). th_id t < j)"
proof -
  from assms have i: "next_rowid (seq_threads st) (map th_id (threads st)) = Inr j"
    and s: "st1 = st\<lparr>threads := threads st @
                  [\<lparr>th_id = j, th_title = title, th_posts_count = 0, th_created_at = now,
                    th_last_activity_at = now, th_category_id = Some cid\<rparr>], seq_threads := j\<rparr>"
    by (auto simp: insert_thread_def split: if_splits sum.splits)
  have "\<forall>t\<in>set (threads st). th_id t < j"
    using next_rowid_fresh [OF i] by auto
  with s show ?thesis by simp
qed

lemma insert_comment_Inr:
  assumes "insert_comment st P a c now = Inr st1"
  shows "\<exists>k. st1 = st\<lparr>comments := comments st @
                       [\<lparr>co_id = k, co_post_id = P, co_author = a, co_content = c,
                         co_created_at = now\<rparr>], seq_comments := k\<rparr>"
  using assms by (auto simp: insert_comment_def split: if_splits sum.splits)

lemma update_thread_posted_Inr:
  "update_thread_posted st now T = Inr st1 \<Longrightarrow>
     st1 = st\<lparr>threads :=
             map (\<lambda>t. if th_id t = T
                      then t\<lparr>th_posts_count := th_posts_count t + 1, th_last_activity_at := now\<rparr>
                      else t) (threads st)\<rparr>"
  by (auto simp: update_thread_posted_def split: if_splits)

lemma update_thread_activity_Inr:
  "update_thread_activity st now T = Inr st1 \<Longrightarrow>
     st1 = st\<lparr>threads :=
             map (\<lambda>t. if th_id t = T then t\<lparr>th_last_activity_at := now\<rparr> else t) (threads st)\<rparr>"
  by (auto simp: update_thread_activity_def split: if_splits)

lemma activity_times_le:
  "not_after st now \<Longrightarrow> y \<in> set (activity_times st x) \<Longrightarrow> y \<le> now"
  by (auto simp: not_after_def activity_times_def posts_of_def comments_of_def list_all_iff)

lemma not_after_mono: "not_after st t0 \<Longrightarrow> t0 \<le> now \<Longrightarrow> not_after st now"
  by (fastforce simp: not_after_def list_all_iff)

lemma thread_consistent_cong:
  "posts st1 = posts st \<Longrightarrow> comments st1 = comments st \<Longrightarrow>
     thread_consistent st1 t = thread_consistent st t"
  by (simp add: thread_consistent_def activity_times_def posts_of_def comments_of_def)

lemma keys_post_added:
  assumes p2: "posts st2 = posts st @ [P]"
    and c2: "comments st2 = comments st"
    and t2: "map th_id (threads st2) = map th_id (threads st)"
    and P: "po_thread_id P = T"
    and fresh: "\<forall>p\<in>set (posts st). po_id p < po_id P"
    and ex: "\<exists>t\<in>set (threads st). th_id t = T"
    and keys: "keys_consistent st"
  shows "keys_consistent st2"
proof -
  have fk: "\<forall>c\<in>set (comments st). \<exists>p\<in>set (posts st). po_id p = co_post_id c"
    using keys by (auto simp: keys_consistent_def list_all_iff list_ex_iff)
  have "distinct (map po_id (posts st2))"
    using keys fresh by (auto simp: keys_consistent_def p2)
  moreover have "set (map th_id (threads st2)) = set (map th_id (threads st))"
    using t2 by simp
  then have tids: "th_id ` set (threads st2) = th_id ` set (threads st)" by simp
  have "\<forall>p\<in>set (posts st2). \<exists>t\<in>set (threads st2). th_id t = po_thread_id p"
  proof
    fix p assume "p \<in> set (posts st2)"
    then have "\<exists>t\<in>set (threads st). th_id t = po_thread_id p"
      using keys ex P by (auto simp: keys_consistent_def p2 list_all_iff list_ex_iff)
    then have "po_thread_id p \<in> th_id ` set (threads st)" by force
    then show "\<exists>t\<in>set (threads st2). th_id t = po_thread_id p"
      unfolding tids [symmetric] by auto
  qed
  moreover have "\<forall>c\<in>set (comments st2). \<exists>p\<in>set (posts st2). po_id p = co_post_id c"
    using fk by (auto simp: c2 p2)
  ultimately show ?thesis
    using keys t2 by (simp add: keys_consistent_def list_all_iff list_ex_iff)
qed

lemma map_th_id_update:
  "map th_id (map (\<lambda>t. if th_id t = T then f t else t) ts) = map th_id ts"
  if "\<And>t. th_id (f t) = th_id t"
  using that by (induction ts) auto

lemma counts_post_added:
  assumes p2: "posts st2 = posts st @ [P]"
    and t2: "threads st2 =
               map (\<lambda>t. if th_id t = T
                        then t\<lparr>th_posts_count := th_posts_count t + 1, th_last_activity_at := now\<rparr>
                        else t) (threads st)"
    and P: "po_thread_id P = T"
    and cnt: "counts_consistent st"
  shows "counts_consistent st2"
proof -
  have po: "posts_of st2 x = posts_of st x @ (if x = T then [P] else [])" for x
    using P by (auto simp: posts_of_def p2)
  show ?thesis
    using cnt unfolding counts_consistent_def list_all_iff t2 by (auto simp: po)
qed

lemma post_added:
  assumes p2: "posts st2 = posts st @ [P]"
    and c2: "comments st2 = comments st"
    and t2: "threads st2 =
               map (\<lambda>t. if th_id t = T
                        then t\<lparr>th_posts_count := th_posts_count t + 1, th_last_activity_at := now\<rparr>
                        else t) (threads st)"
    and P: "po_thread_id P = T" "po_created_at P = now"
    and fresh: "\<forall>p\<in>set (posts st). po_id p < po_id P"
    and ex: "\<exists>t\<in>set (threads st). th_id t = T"
    and keys: "keys_consistent st"
    and na: "not_after st now"
    and pre: "\<forall>t\<in>set (threads st).
                (th_id t = T \<longrightarrow> th_posts_count t = int (length (posts_of st T)))
                \<and> (th_id t \<noteq> T \<longrightarrow> thread_consistent st t)"
  shows "keys_consistent st2 \<and> counters_consistent st2 \<and> not_after st2 now"
proof -
  have fk: "\<forall>c\<in>set (comments st). \<exists>p\<in>set (posts st). po_id p = co_post_id c"
    using keys by (auto simp: keys_consistent_def list_all_iff list_ex_iff)
  have po: "posts_of st2 x = posts_of st x @ (if x = T then [P] else [])" for x
    using P by (auto simp: posts_of_def p2)
  have co: "comments_of st2 x = comments_of st x" for x
  proof -
    have "list_ex (\<lambda>p. po_id p = co_post_id c \<and> po_thread_id p = x) (posts st2)
            = list_ex (\<lambda>p. po_id p = co_post_id c \<and> po_thread_id p = x) (posts st)"
      if "c \<in> set (comments st)" for c
    proof -
      from fk that obtain p where "p \<in> set (posts st)" "po_id p = co_post_id c" by blast
      with fresh have "po_id P \<noteq> co_post_id c" by force
      then show ?thesis by (auto simp: p2 list_ex_iff)
    qed
    then show ?thesis
      unfolding comments_of_def c2 by (intro filter_cong) auto
  qed
  have times_other: "activity_times st2 x = activity_times st x" if "x \<noteq> T" for x
    using that by (simp add: activity_times_def po co)
  have times_T: "set (activity_times st2 T) = insert now (set (activity_times st T))"
    using P by (auto simp: activity_times_def po co)
  have max_T: "Max (set (activity_times st2 T)) = now"
    unfolding times_T using activity_times_le [OF na] by (intro Max_insert2) auto
  have keys2: "keys_consistent st2"
    using p2 c2 _ P(1) fresh ex keys
    by (rule keys_post_added) (simp add: t2 map_th_id_update)
  have cnt2: "counters_consistent st2"
    unfolding counters_consistent_def list_all_iff
  proof
    fix t' assume "t' \<in> set (threads st2)"
    then obtain t where t: "t \<in> set (threads st)"
      and t': "t' = (if th_id t = T
                     then t\<lparr>th_posts_count := th_posts_count t + 1, th_last_activity_at := now\<rparr>
                     else t)"
      unfolding t2 by auto
    show "thread_consistent st2 t'"
    proof (cases "th_id t = T")
      case True
      with pre t have "th_posts_count t = int (length (posts_of st T))" by blast
      with True t' max_T times_T show ?thesis
        by (auto simp: thread_consistent_def po)
    next
      case False
      with pre t have "thread_consistent st t" by blast
      with False t' show ?thesis
        by (simp add: thread_consistent_def po times_other)
    qed
  qed
  have "not_after st2 now"
    using na P by (simp add: not_after_def p2 c2)
  with keys2 cnt2 show ?thesis by simp
qed

lemma comment_added:
  assumes c2: "comments st2 = comments st @ [C]"
    and p2: "posts st2 = posts st"
    and t2: "threads st2 =
               map (\<lambda>t. if th_id t = T then t\<lparr>th_last_activity_at := now\<rparr> else t) (threads st)"
    and C: "co_post_id C = pid" "co_created_at C = now"
    and post: "find (\<lambda>p. po_id p = pid) (posts st) = Some post" "po_thread_id post = T"
    and keys: "keys_consistent st"
    and cnt: "counters_consistent st"
    and na: "not_after st now"
  shows "keys_consistent st2 \<and> counters_consistent st2 \<and> not_after st2 now"
proof -
  have pin: "post \<in> set (posts st)" "po_id post = pid"
    using post(1) by (auto simp: find_Some_iff)
  have inj: "inj_on po_id (set (posts st))"
    using keys by (simp add: keys_consistent_def distinct_map)
  have only: "p = post" if "p \<in> set (posts st)" "po_id p = pid" for p
    using inj_onD [OF inj, of p post] that pin by simp
  have po: "posts_of st2 x = posts_of st x" for x
    by (simp add: posts_of_def p2)
  have co: "comments_of st2 x = comments_of st x @ (if x = T then [C] else [])" for x
  proof -
    have "list_ex (\<lambda>p. po_id p = pid \<and> po_thread_id p = x) (posts st) \<longleftrightarrow> x = T"
    proof
      assume "list_ex (\<lambda>p. po_id p = pid \<and> po_thread_id p = x) (posts st)"
      then obtain p where p: "p \<in> set (posts st)" "po_id p = pid" "po_thread_id p = x"
        unfolding list_ex_iff by blast
      from only [OF p(1,2)] p(3) post(2) show "x = T" by simp
    next
      assume "x = T"
      with pin post(2) show "list_ex (\<lambda>p. po_id p = pid \<and> po_thread_id p = x) (posts st)"
        unfolding list_ex_iff by blast
    qed
    then show ?thesis by (simp add: comments_of_def c2 p2 C)
  qed
  have times_other: "activity_times st2 x = activity_times st x" if "x \<noteq> T" for x
    using that by (simp add: activity_times_def po co)
  have times_T: "set (activity_times st2 T) = insert now (set (activity_times st T))"
    using C by (auto simp: activity_times_def po co)
  have max_T: "Max (set (activity_times st2 T)) = now"
    unfolding times_T using activity_times_le [OF na] by (intro Max_insert2) auto
  have ids: "map th_id (threads st2) = map th_id (threads st)"
    unfolding t2 by (induction "threads st") auto
  then have "set (map th_id (threads st2)) = set (map th_id (threads st))" by simp
  then have tids: "th_id ` set (threads st2) = th_id ` set (threads st)" by simp
  have keys2: "keys_consistent st2"
  proof -
    have "\<forall>p\<in>set (posts st2). \<exists>t\<in>set (threads st2). th_id t = po_thread_id p"
    proof
      fix p assume "p \<in> set (posts st2)"
      then have "\<exists>t\<in>set (threads st). th_id t = po_thread_id p"
        using keys by (auto simp: keys_consistent_def p2 list_all_iff list_ex_iff)
      then have "po_thread_id p \<in> th_id ` set (threads st)" by force
      then show "\<exists>t\<in>set (threads st2). th_id t = po_thread_id p"
        unfolding tids [symmetric] by auto
    qed
    moreover have "\<forall>c\<in>set (comments st2). \<exists>p\<in>set (posts st2). po_id p = co_post_id c"
      using keys pin C by (auto simp: keys_consistent_def c2 p2 list_all_iff list_ex_iff)
    ultimately show ?thesis
      using keys ids by (simp add: keys_consistent_def list_all_iff list_ex_iff p2)
  qed
  have cnt2: "counters_consistent st2"
    unfolding counters_consistent_def list_all_iff
  proof
    fix t' assume "t' \<in> set (threads st2)"
    then obtain t where t: "t \<in> set (threads st)"
      and t': "t' = (if th_id t = T then t\<lparr>th_last_activity_at := now\<rparr> else t)"
      unfolding t2 by auto
    from cnt t have tc: "thread_consistent st t"
      by (simp add: counters_consistent_def list_all_iff)
    show "thread_consistent st2 t'"
    proof (cases "th_id t = T")
      case True
      with tc t' max_T times_T show ?thesis
        by (auto simp: thread_consistent_def po)
    next
      case False
      with tc t' show ?thesis
        by (simp add: thread_consistent_def po times_other)
    qed
  qed
  have "not_after st2 now"
    using na C by (simp add: not_after_def p2 c2)
  with keys2 cnt2 show ?thesis by simp
qed

lemma reply_Inr:
  "reply st T frm now = Inr (st2, r) \<Longrightarrow>
     \<exists>a c st1. insert_post st T a c now = Inr st1 \<and> update_thread_posted st1 now T = Inr st2"
  unfolding reply_def Let_def
  by (simp split: sum.splits if_splits) (intro exI conjI; assumption)+

lemma comment_Inr:
  "comment st P frm now = Inr (st2, r) \<Longrightarrow>
     \<exists>post a c st1. find (\<lambda>p. po_id p = P) (posts st) = Some post
        \<and> insert_comment st P a c now = Inr st1
        \<and> update_thread_activity st1 now (po_thread_id post) = Inr st2"
  unfolding comment_def Let_def select_post_by_id_def
  by (simp split: sum.splits if_splits option.splits)
    (intro exI conjI; assumption)+

lemma create_thread_Inr:
  "create_thread st frm now = Inr (st3, r) \<Longrightarrow>
     \<exists>title a c cid st1 j st2.
        insert_thread st title now cid = Inr (st1, j)
        \<and> insert_post st1 j a c now = Inr st2
        \<and> update_thread_posted st2 now j = Inr st3"
  unfolding create_thread_def Let_def
  by (simp split: sum.splits if_splits option.splits prod.splits)
    (intro exI conjI; assumption)+

lemma reply_preserves:
  assumes r: "reply st T frm now = Inr (st2, r)"
    and keys: "keys_consistent st" and cnt: "counters_consistent st" and na: "not_after st now"
  shows "keys_consistent st2 \<and> counters_consistent st2 \<and> not_after st2 now"
proof -
  from reply_Inr [OF r] obtain a c st1 where
    ins: "insert_post st T a c now = Inr st1" and upd: "update_thread_posted st1 now T = Inr st2"
    by blast
  from insert_post_Inr [OF ins] obtain i where
    st1: "st1 = st\<lparr>posts := posts st @
                       [\<lparr>po_id = i, po_thread_id = T, po_author = a, po_content = c,
                         po_created_at = now\<rparr>], seq_posts := i\<rparr>"
    and fresh: "\<forall>p\<in>set (posts st). po_id p < i"
    and ex: "\<exists>t\<in>set (threads st). th_id t = T"
    by blast
  note st2 = update_thread_posted_Inr [OF upd]
  have pre: "\<forall>t\<in>set (threads st).
                (th_id t = T \<longrightarrow> th_posts_count t = int (length (posts_of st T)))
                \<and> (th_id t \<noteq> T \<longrightarrow> thread_consistent st t)"
    using cnt by (auto simp: counters_consistent_def list_all_iff thread_consistent_def)
  show ?thesis
  proof (rule post_added [where st = st and T = T and now = now
            and P = "\<lparr>po_id = i, po_thread_id = T, po_author = a, po_content = c,
                       po_created_at = now\<rparr>"])
    show "posts st2 = posts st @ [\<lparr>po_id = i, po_thread_id = T, po_author = a,
              po_content = c, po_created_at = now\<rparr>]"
      by (subst st2) (simp add: st1)
    show "comments st2 = comments st" by (subst st2) (simp add: st1)
    show "threads st2 =
            map (\<lambda>t. if th_id t = T
                     then t\<lparr>th_posts_count := th_posts_count t + 1, th_last_activity_at := now\<rparr>
                     else t) (threads st)"
      by (subst st2) (simp add: st1)
  qed (use fresh ex keys na pre in simp_all)
qed

lemma comment_preserves:
  assumes r: "comment st P frm now = Inr (st2, r)"
    and keys: "keys_consistent st" and cnt: "counters_consistent st" and na: "not_after st now"
  shows "keys_consistent st2 \<and> counters_consistent st2 \<and> not_after st2 now"
proof -
  from comment_Inr [OF r] obtain post a c st1 where
    post: "find (\<lambda>p. po_id p = P) (posts st) = Some post"
    and ins: "insert_comment st P a c now = Inr st1"
    and upd: "update_thread_activity st1 now (po_thread_id post) = Inr st2"
    by blast
  from insert_comment_Inr [OF ins] obtain k where
    st1: "st1 = st\<lparr>comments := comments st @
                       [\<lparr>co_id = k, co_post_id = P, co_author = a, co_content = c,
                         co_created_at = now\<rparr>], seq_comments := k\<rparr>"
    by blast
  note st2 = update_thread_activity_Inr [OF upd]
  show ?thesis
  proof (rule comment_added [where st = st and T = "po_thread_id post" and now = now
            and pid = P and post = post
            and C = "\<lparr>co_id = k, co_post_id = P, co_author = a, co_content = c,
                       co_created_at = now\<rparr>"])
    show "comments st2 = comments st @ [\<lparr>co_id = k, co_post_id = P, co_author = a,
              co_content = c, co_created_at = now\<rparr>]"
      by (subst st2) (simp add: st1)
    show "posts st2 = posts st" by (subst st2) (simp add: st1)
    show "threads st2 =
            map (\<lambda>t. if th_id t = po_thread_id post then t\<lparr>th_last_activity_at := now\<rparr> else t)
              (threads st)"
      by (subst st2) (simp add: st1)
  qed (use post keys cnt na in simp_all)
qed

lemma create_thread_preserves:
  assumes r: "create_thread st frm now = Inr (st3, r)"
    and keys: "keys_consistent st" and cnt: "counters_consistent st" and na: "not_after st now"
  shows "keys_consistent st3 \<and> counters_consistent st3 \<and> not_after st3 now"
proof -
  from create_thread_Inr [OF r] obtain title a c cid st1 j st2 where
    thr: "insert_thread st title now cid = Inr (st1, j)"
    and ins: "insert_post st1 j a c now = Inr st2"
    and upd: "update_thread_posted st2 now j = Inr st3"
    by blast
  define N where "N = \<lparr>th_id = j, th_title = title, th_posts_count = 0, th_created_at = now,
                    th_last_activity_at = now, th_category_id = Some cid\<rparr>"
  from insert_thread_Inr [OF thr] have
    st1: "st1 = st\<lparr>threads := threads st @ [N], seq_threads := j\<rparr>"
    and jfresh: "\<forall>t\<in>set (threads st). th_id t < j"
    by (simp_all add: N_def)
  from insert_post_Inr [OF ins] obtain i where
    st2: "st2 = st1\<lparr>posts := posts st1 @
                       [\<lparr>po_id = i, po_thread_id = j, po_author = a, po_content = c,
                         po_created_at = now\<rparr>], seq_posts := i\<rparr>"
    and fresh: "\<forall>p\<in>set (posts st1). po_id p < i"
    and ex: "\<exists>t\<in>set (threads st1). th_id t = j"
    by blast
  note st3 = update_thread_posted_Inr [OF upd]
  have fk: "\<forall>p\<in>set (posts st). \<exists>t\<in>set (threads st). th_id t = po_thread_id p"
    using keys by (auto simp: keys_consistent_def list_all_iff list_ex_iff)
  have none: "posts_of st1 j = []"
  proof -
    have "po_thread_id p \<noteq> j" if "p \<in> set (posts st)" for p
    proof -
      from fk that obtain t where "t \<in> set (threads st)" "th_id t = po_thread_id p" by blast
      with jfresh show ?thesis by force
    qed
    then show ?thesis by (auto simp: posts_of_def st1 filter_empty_conv)
  qed
  have keys1: "keys_consistent st1"
  proof -
    have "j \<notin> th_id ` set (threads st)" using jfresh by force
    then have "distinct (map th_id (threads st1))"
      using keys by (simp add: keys_consistent_def st1 N_def)
    moreover have "\<forall>p\<in>set (posts st1). \<exists>t\<in>set (threads st1). th_id t = po_thread_id p"
      using fk by (auto simp: st1)
    ultimately show ?thesis
      using keys by (simp add: keys_consistent_def st1 list_all_iff list_ex_iff)
  qed
  have na1: "not_after st1 now" using na by (simp add: not_after_def st1)
  have pre: "\<forall>t\<in>set (threads st1).
                (th_id t = j \<longrightarrow> th_posts_count t = int (length (posts_of st1 j)))
                \<and> (th_id t \<noteq> j \<longrightarrow> thread_consistent st1 t)"
  proof
    fix t assume "t \<in> set (threads st1)"
    then consider "t = N" | "t \<in> set (threads st)" by (auto simp: st1)
    then show "(th_id t = j \<longrightarrow> th_posts_count t = int (length (posts_of st1 j)))
                \<and> (th_id t \<noteq> j \<longrightarrow> thread_consistent st1 t)"
    proof cases
      case 1
      then show ?thesis by (simp add: N_def none)
    next
      case 2
      with jfresh have "th_id t \<noteq> j" by force
      moreover have "thread_consistent st t"
        using cnt 2 by (simp add: counters_consistent_def list_all_iff)
      then have "thread_consistent st1 t"
        by (subst thread_consistent_cong [where st = st]) (simp_all add: st1)
      ultimately show ?thesis by simp
    qed
  qed
  show ?thesis
  proof (rule post_added [where st = st1 and T = j and now = now
            and P = "\<lparr>po_id = i, po_thread_id = j, po_author = a, po_content = c,
                       po_created_at = now\<rparr>"])
    show "posts st3 = posts st1 @ [\<lparr>po_id = i, po_thread_id = j, po_author = a,
              po_content = c, po_created_at = now\<rparr>]"
      by (subst st3) (simp add: st2)
    show "comments st3 = comments st1" by (subst st3) (simp add: st2)
    show "threads st3 =
            map (\<lambda>t. if th_id t = j
                     then t\<lparr>th_posts_count := th_posts_count t + 1, th_last_activity_at := now\<rparr>
                     else t) (threads st1)"
      by (subst st3) (simp add: st2)
  qed (use fresh ex keys1 na1 pre in simp_all)
qed

lemma apply_operation_preserves:
  assumes keys: "keys_consistent st" and cnt: "counters_consistent st"
    and na: "not_after st t0" and le: "t0 \<le> snd x"
  shows "keys_consistent (apply_operation st x) \<and> counters_consistent (apply_operation st x)
         \<and> not_after (apply_operation st x) (snd x)"
proof -
  note na1 = not_after_mono [OF na le]
  show ?thesis
  proof (cases "fst x")
    case (CreateThread frm)
    show ?thesis
    proof (cases "create_thread st frm (snd x)")
      case (Inl e)
      with CreateThread keys cnt na1 show ?thesis by (simp add: apply_operation_def)
    next
      case (Inr y)
      then obtain st1 r where "create_thread st frm (snd x) = Inr (st1, r)" by (cases y) simp
      with CreateThread create_thread_preserves [OF this keys cnt na1] show ?thesis
        by (simp add: apply_operation_def)
    qed
  next
    case (AddReply T frm)
    show ?thesis
    proof (cases "reply st T frm (snd x)")
      case (Inl e)
      with AddReply keys cnt na1 show ?thesis by (simp add: apply_operation_def)
    next
      case (Inr y)
      then obtain st1 r where "reply st T frm (snd x) = Inr (st1, r)" by (cases y) simp
      with AddReply reply_preserves [OF this keys cnt na1] show ?thesis
        by (simp add: apply_operation_def)
    qed
  next
    case (AddComment P frm)
    show ?thesis
    proof (cases "comment st P frm (snd x)")
      case (Inl e)
      with AddComment keys cnt na1 show ?thesis by (simp add: apply_operation_def)
    next
      case (Inr y)
      then obtain st1 r where "comment st P frm (snd x) = Inr (st1, r)" by (cases y) simp
      with AddComment comment_preserves [OF this keys cnt na1] show ?thesis
        by (simp add: apply_operation_def)
    qed
  qed
qed

lemma run_operations_preserves:
  "keys_consistent st \<Longrightarrow> counters_consistent st \<Longrightarrow> not_after st t0 \<Longrightarrow>
   sorted (t0 # map snd ops) \<Longrightarrow>
     keys_consistent (run_operations st ops) \<and> counters_consistent (run_operations st ops)"
proof (induction ops arbitrary: st t0)
  case Nil
  then show ?case by (simp add: run_operations_def)
next
  case (Cons x ops)
  from Cons.prems(4) have le: "t0 \<le> snd x" and s: "sorted (snd x # map snd ops)" by simp_all
  from apply_operation_preserves [OF Cons.prems(1-3) le]
  have "keys_consistent (apply_operation st x)" "counters_consistent (apply_operation st x)"
    "not_after (apply_operation st x) (snd x)" by simp_all
  from Cons.IH [OF this s] show ?case by (simp add: run_operations_def)
qed

lemma keys_comment_added:
  assumes c2: "comments st2 = comments st @ [C]"
    and p2: "posts st2 = posts st"
    and t2: "map th_id (threads st2) = map th_id (threads st)"
    and C: "co_post_id C = pid"
    and post: "find (\<lambda>p. po_id p = pid) (posts st) = Some post"
    and keys: "keys_consistent st"
  shows "keys_consistent st2"
proof -
  have pin: "post \<in> set (posts st)" "po_id post = pid"
    using post by (auto simp: find_Some_iff)
  have "set (map th_id (threads st2)) = set (map th_id (threads st))" using t2 by simp
  then have tids: "th_id ` set (threads st2) = th_id ` set (threads st)" by simp
  have "\<forall>p\<in>set (posts st2). \<exists>t\<in>set (threads st2). th_id t = po_thread_id p"
  proof
    fix p assume "p \<in> set (posts st2)"
    then have "\<exists>t\<in>set (threads st). th_id t = po_thread_id p"
      using keys by (auto simp: keys_consistent_def p2 list_all_iff list_ex_iff)
    then have "po_thread_id p \<in> th_id ` set (threads st)" by force
    then show "\<exists>t\<in>set (threads st2). th_id t = po_thread_id p"
      unfolding tids [symmetric] by auto
  qed
  moreover have "\<forall>c\<in>set (comments st2). \<exists>p\<in>set (posts st2). po_id p = co_post_id c"
    using keys pin C by (auto simp: keys_consistent_def c2 p2 list_all_iff list_ex_iff)
  ultimately show ?thesis
    using keys t2 by (simp add: keys_consistent_def list_all_iff list_ex_iff p2)
qed

lemma counts_comment_added:
  assumes p2: "posts st2 = posts st"
    and t2: "threads st2 =
               map (\<lambda>t. if th_id t = T then t\<lparr>th_last_activity_at := now\<rparr> else t) (threads st)"
    and cnt: "counts_consistent st"
  shows "counts_consistent st2"
proof -
  have po: "posts_of st2 x = posts_of st x" for x
    by (simp add: posts_of_def p2)
  show ?thesis
    using cnt unfolding counts_consistent_def list_all_iff t2 by (auto simp: po)
qed

lemma reply_counts:
  assumes r: "reply st T frm now = Inr (st2, r)"
    and keys: "keys_consistent st" and cnt: "counts_consistent st"
  shows "keys_consistent st2 \<and> counts_consistent st2"
proof -
  from reply_Inr [OF r] obtain a c st1 where
    ins: "insert_post st T a c now = Inr st1" and upd: "update_thread_posted st1 now T = Inr st2"
    by blast
  from insert_post_Inr [OF ins] obtain i where
    st1: "st1 = st\<lparr>posts := posts st @
                       [\<lparr>po_id = i, po_thread_id = T, po_author = a, po_content = c,
                         po_created_at = now\<rparr>], seq_posts := i\<rparr>"
    and fresh: "\<forall>p\<in>set (posts st). po_id p < i"
    and ex: "\<exists>t\<in>set (threads st). th_id t = T"
    by blast
  note st2 = update_thread_posted_Inr [OF upd]
  define P where "P = \<lparr>po_id = i, po_thread_id = T, po_author = a, po_content = c,
                         po_created_at = now\<rparr>"
  have p2: "posts st2 = posts st @ [P]" by (subst st2) (simp add: st1 P_def)
  have c2: "comments st2 = comments st" by (subst st2) (simp add: st1)
  have t2: "threads st2 =
            map (\<lambda>t. if th_id t = T
                     then t\<lparr>th_posts_count := th_posts_count t + 1, th_last_activity_at := now\<rparr>
                     else t) (threads st)"
    by (subst st2) (simp add: st1)
  have "keys_consistent st2"
    using p2 c2 _ _ _ ex keys
    by (rule keys_post_added) (use fresh in \<open>simp_all add: t2 map_th_id_update P_def\<close>)
  moreover have "counts_consistent st2"
    using p2 t2 _ cnt by (rule counts_post_added) (simp add: P_def)
  ultimately show ?thesis by simp
qed

lemma comment_counts:
  assumes r: "comment st P frm now = Inr (st2, r)"
    and keys: "keys_consistent st" and cnt: "counts_consistent st"
  shows "keys_consistent st2 \<and> counts_consistent st2"
proof -
  from comment_Inr [OF r] obtain post a c st1 where
    post: "find (\<lambda>p. po_id p = P) (posts st) = Some post"
    and ins: "insert_comment st P a c now = Inr st1"
    and upd: "update_thread_activity st1 now (po_thread_id post) = Inr st2"
    by blast
  from insert_comment_Inr [OF ins] obtain k where
    st1: "st1 = st\<lparr>comments := comments st @
                       [\<lparr>co_id = k, co_post_id = P, co_author = a, co_content = c,
                         co_created_at = now\<rparr>], seq_comments := k\<rparr>"
    by blast
  note st2 = update_thread_activity_Inr [OF upd]
  define C where "C = \<lparr>co_id = k, co_post_id = P, co_author = a, co_content = c,
                         co_created_at = now\<rparr>"
  have c2: "comments st2 = comments st @ [C]" by (subst st2) (simp add: st1 C_def)
  have p2: "posts st2 = posts st" by (subst st2) (simp add: st1)
  have t2: "threads st2 =
            map (\<lambda>t. if th_id t = po_thread_id post then t\<lparr>th_last_activity_at := now\<rparr> else t)
              (threads st)"
    by (subst st2) (simp add: st1)
  have "keys_consistent st2"
    using c2 p2 _ _ post keys
    by (rule keys_comment_added) (simp_all add: t2 map_th_id_update C_def)
  moreover have "counts_consistent st2"
    using p2 t2 cnt by (rule counts_comment_added)
  ultimately show ?thesis by simp
qed

lemma create_thread_counts:
  assumes r: "create_thread st frm now = Inr (st3, r)"
    and keys: "keys_consistent st" and cnt: "counts_consistent st"
  shows "keys_consistent st3 \<and> counts_consistent st3"
proof -
  from create_thread_Inr [OF r] obtain title a c cid st1 j st2 where
    thr: "insert_thread st title now cid = Inr (st1, j)"
    and ins: "insert_post st1 j a c now = Inr st2"
    and upd: "update_thread_posted st2 now j = Inr st3"
    by blast
  define N where "N = \<lparr>th_id = j, th_title = title, th_posts_count = 0, th_created_at = now,
                    th_last_activity_at = now, th_category_id = Some cid\<rparr>"
  from insert_thread_Inr [OF thr] have
    st1: "st1 = st\<lparr>threads := threads st @ [N], seq_threads := j\<rparr>"
    and jfresh: "\<forall>t\<in>set (threads st). th_id t < j"
    by (simp_all add: N_def)
  from insert_post_Inr [OF ins] obtain i where
    st2: "st2 = st1\<lparr>posts := posts st1 @
                       [\<lparr>po_id = i, po_thread_id = j, po_author = a, po_content = c,
                         po_created_at = now\<rparr>], seq_posts := i\<rparr>"
    and fresh: "\<forall>p\<in>set (posts st1). po_id p < i"
    and ex: "\<exists>t\<in>set (threads st1). th_id t = j"
    by blast
  note st3 = update_thread_posted_Inr [OF upd]
  define P where "P = \<lparr>po_id = i, po_thread_id = j, po_author = a, po_content = c,
                         po_created_at = now\<rparr>"
  have fk: "\<forall>p\<in>set (posts st). \<exists>t\<in>set (threads st). th_id t = po_thread_id p"
    using keys by (auto simp: keys_consistent_def list_all_iff list_ex_iff)
  have none: "posts_of st1 j = []"
  proof -
    have "po_thread_id p \<noteq> j" if "p \<in> set (posts st)" for p
    proof -
      from fk that obtain t where "t \<in> set (threads st)" "th_id t = po_thread_id p" by blast
      with jfresh show ?thesis by force
    qed
    then show ?thesis by (auto simp: posts_of_def st1 filter_empty_conv)
  qed
  have keys1: "keys_consistent st1"
  proof -
    have "j \<notin> th_id ` set (threads st)" using jfresh by force
    then have "distinct (map th_id (threads st1))"
      using keys by (simp add: keys_consistent_def st1 N_def)
    moreover have "\<forall>p\<in>set (posts st1). \<exists>t\<in>set (threads st1). th_id t = po_thread_id p"
      using fk by (auto simp: st1)
    ultimately show ?thesis
      using keys by (simp add: keys_consistent_def st1 list_all_iff list_ex_iff)
  qed
  have po1: "posts_of st1 x = posts_of st x" for x
    by (simp add: posts_of_def st1)
  have cnt1: "counts_consistent st1"
    using cnt none by (auto simp: counts_consistent_def list_all_iff st1 N_def po1 posts_of_def)
  have p3: "posts st3 = posts st1 @ [P]" by (subst st3) (simp add: st2 P_def)
  have c3: "comments st3 = comments st1" by (subst st3) (simp add: st2)
  have t3: "threads st3 =
            map (\<lambda>t. if th_id t = j
                     then t\<lparr>th_posts_count := th_posts_count t + 1, th_last_activity_at := now\<rparr>
                     else t) (threads st1)"
    by (subst st3) (simp add: st2)
  have "keys_consistent st3"
    using p3 c3 _ _ _ ex keys1
    by (rule keys_post_added) (use fresh in \<open>simp_all add: t3 map_th_id_update P_def\<close>)
  moreover have "counts_consistent st3"
    using p3 t3 _ cnt1 by (rule counts_post_added) (simp add: P_def)
  ultimately show ?thesis by simp
qed

lemma apply_operation_counts:
  assumes keys: "keys_consistent st" and cnt: "counts_consistent st"
  shows "keys_consistent (apply_operation st x) \<and> counts_consistent (apply_operation st x)"
proof (cases "fst x")
  case (CreateThread frm)
  show ?thesis
  proof (cases "create_thread st frm (snd x)")
    case (Inl e)
    with CreateThread keys cnt show ?thesis by (simp add: apply_operation_def)
  next
    case (Inr y)
    then obtain st1 r where "create_thread st frm (snd x) = Inr (st1, r)" by (cases y) simp
    with CreateThread create_thread_counts [OF this keys cnt] show ?thesis
      by (simp add: apply_operation_def)
  qed
next
  case (AddReply T frm)
  show ?thesis
  proof (cases "reply st T frm (snd x)")
    case (Inl e)
    with AddReply keys cnt show ?thesis by (simp add: apply_operation_def)
  next
    case (Inr y)
    then obtain st1 r where "reply st T frm (snd x) = Inr (st1, r)" by (cases y) simp
    with AddReply reply_counts [OF this keys cnt] show ?thesis
      by (simp add: apply_operation_def)
  qed
next
  case (AddComment P frm)
  show ?thesis
  proof (cases "comment st P frm (snd x)")
    case (Inl e)
    with AddComment keys cnt show ?thesis by (simp add: apply_operation_def)
  next
    case (Inr y)
    then obtain st1 r where "comment st P frm (snd x) = Inr (st1, r)" by (cases y) simp
    with AddComment comment_counts [OF this keys cnt] show ?thesis
      by (simp add: apply_operation_def)
  qed
qed

lemma run_operations_counts:
  "keys_consistent st \<Longrightarrow> counts_consistent st \<Longrightarrow>
     keys_consistent (run_operations st ops) \<and> counts_consistent (run_operations st ops)"
proof (induction ops arbitrary: st)
  case Nil
  then show ?case by (simp add: run_operations_def)
next
  case (Cons x ops)
  from apply_operation_counts [OF Cons.prems]
  have "keys_consistent (apply_operation st x)" "counts_consistent (apply_operation st x)"
    by simp_all
  from Cons.IH [OF this] show ?case by (simp add: run_operations_def)
qed

lemma counters_imp_counts: "counters_consistent st \<Longrightarrow> counts_consistent st"
  by (simp add: counters_consistent_def counts_consistent_def thread_consistent_def list_all_iff)

lemmas handler_eval =
  apply_operation_def create_thread_def reply_def comment_def
  select_thread_exists_def select_post_by_id_def select_category_by_id_def
  select_first_category_def insert_thread_def insert_post_def insert_comment_def
  update_thread_posted_def update_thread_activity_def next_rowid_def sqlite_int_def
  field_def strip_def lstrip_def rstrip_def py_isspace_def clamp_text_def u_def Let_def

lemma steady_clock_run:
  "run_operations seeded_store steady_clock_ops =
     seeded_store\<lparr>threads := [hello_thread 2 150],
        posts := [\<lparr>po_id = 1, po_thread_id = 1, po_author = u ''anon'', po_content = u ''**bold**'',
                   po_created_at = 100\<rparr>,
                 \<lparr>po_id = 2, po_thread_id = 1, po_author = u ''anon'', po_content = u ''hi'',
                   po_created_at = 150\<rparr>],
        comments := [\<lparr>co_id = 1, co_post_id = 1, co_author = u ''anon'', co_content = u ''hi'',
                      co_created_at = 150\<rparr>],
        seq_threads := 1, seq_posts := 2, seq_comments := 1\<rparr>"
  by (simp add: run_operations_def steady_clock_ops_def seeded_store_def empty_store_def
        seeded_def hello_form_def reply_form_def hello_thread_def handler_eval)

lemma clock_back_run:
  "run_operations seeded_store clock_back_ops =
     seeded_store\<lparr>threads := [hello_thread 2 50],
        posts := [\<lparr>po_id = 1, po_thread_id = 1, po_author = u ''anon'', po_content = u ''**bold**'',
                   po_created_at = 100\<rparr>,
                 \<lparr>po_id = 2, po_thread_id = 1, po_author = u ''anon'', po_content = u ''hi'',
                   po_created_at = 50\<rparr>],
        seq_threads := 1, seq_posts := 2\<rparr>"
  by (simp add: run_operations_def clock_back_ops_def seeded_store_def empty_store_def
        seeded_def hello_form_def reply_form_def hello_thread_def handler_eval)

text \<open>
  The counters along a sequence of operations: \<^verbatim>\<open>posts_count\<close> for every clock,
  \<^verbatim>\<open>last_activity_at\<close> for a clock that never goes back.
\<close>

lemma counters_after_sequence:
  assumes "keys_consistent st" and "counters_consistent st"
    and "n \<le> length ops" and "t \<in> set (threads (run_operations st (take n ops)))"
  shows "th_posts_count t = int (length (posts_of (run_operations st (take n ops)) (th_id t)))
         \<and> (not_after st t0 \<and> sorted (t0 # map snd ops) \<longrightarrow>
              activity_times (run_operations st (take n ops)) (th_id t) \<noteq> []
              \<and> th_last_activity_at t
                  = Max (set (activity_times (run_operations st (take n ops)) (th_id t))))"
proof -
  from run_operations_counts [OF assms(1) counters_imp_counts [OF assms(2)]]
  have "counts_consistent (run_operations st (take n ops))" by simp
  with assms(4)
  have c: "th_posts_count t = int (length (posts_of (run_operations st (take n ops)) (th_id t)))"
    by (simp add: counts_consistent_def list_all_iff)
  have "activity_times (run_operations st (take n ops)) (th_id t) \<noteq> []
        \<and> th_last_activity_at t
            = Max (set (activity_times (run_operations st (take n ops)) (th_id t)))"
    if na: "not_after st t0" and so: "sorted (t0 # map snd ops)"
  proof -
    have "sorted (take (Suc n) (t0 # map snd ops))"
      using so by (rule sorted_wrt_take)
    then have "sorted (t0 # map snd (take n ops))" by (simp add: take_map)
    from run_operations_preserves [OF assms(1,2) na this]
    have "counters_consistent (run_operations st (take n ops))" by simp
    with assms(4) show ?thesis
      by (simp add: counters_consistent_def list_all_iff thread_consistent_def)
  qed
  with c show ?thesis by simp
qed

text \<open>
  What one operation writes into \<^verbatim>\<open>last_activity_at\<close>.
\<close>

lemma comment_redirect:
  "comment st P frm now = Inr (st2, Redirect T a) \<Longrightarrow>
     \<exists>st1. update_thread_activity st1 now T = Inr st2"
  unfolding comment_def Let_def select_post_by_id_def
  by (simp split: sum.splits if_splits option.splits) (rule exI, assumption)+

lemma create_thread_redirect:
  "create_thread st frm now = Inr (st3, Redirect j a) \<Longrightarrow>
     \<exists>st2. update_thread_posted st2 now j = Inr st3"
  unfolding create_thread_def Let_def
  by (simp split: sum.splits if_splits option.splits prod.splits) (rule exI, assumption)+

lemma reply_redirect:
  assumes "reply st T frm now = Inr (st2, r)"
  shows "\<exists>st1. update_thread_posted st1 now T = Inr st2"
proof -
  from reply_Inr [OF assms] obtain a c st1 where
    "insert_post st T a c now = Inr st1 \<and> update_thread_posted st1 now T = Inr st2"
    by (elim exE)
  then have "update_thread_posted st1 now T = Inr st2" by (rule conjunct2)
  then show ?thesis by (rule exI)
qed

lemma update_thread_posted_activity:
  assumes "update_thread_posted st1 now T = Inr st2" "x \<in> set (threads st2)" "th_id x = T"
  shows "th_last_activity_at x = now"
proof -
  have "threads st2 =
          map (\<lambda>t. if th_id t = T
                   then t\<lparr>th_posts_count := th_posts_count t + 1, th_last_activity_at := now\<rparr>
                   else t) (threads st1)"
    by (subst update_thread_posted_Inr [OF assms(1)]) simp
  with assms(2) have
    "x \<in> (\<lambda>t. if th_id t = T
                 then t\<lparr>th_posts_count := th_posts_count t + 1, th_last_activity_at := now\<rparr>
                 else t) ` set (threads st1)"
    by (simp only: set_map)
  then obtain t where
    x: "x = (if th_id t = T
             then t\<lparr>th_posts_count := th_posts_count t + 1, th_last_activity_at := now\<rparr>
             else t)"
    by (rule imageE)
  show ?thesis
  proof (cases "th_id t = T")
    case True
    with x show ?thesis by simp
  next
    case False
    with x assms(3) show ?thesis by simp
  qed
qed

lemma update_thread_activity_activity:
  assumes "update_thread_activity st1 now T = Inr st2" "x \<in> set (threads st2)" "th_id x = T"
  shows "th_last_activity_at x = now"
proof -
  have "threads st2 =
          map (\<lambda>t. if th_id t = T then t\<lparr>th_last_activity_at := now\<rparr> else t) (threads st1)"
    by (subst update_thread_activity_Inr [OF assms(1)]) simp
  with assms(2) have
    "x \<in> (\<lambda>t. if th_id t = T then t\<lparr>th_last_activity_at := now\<rparr> else t) ` set (threads st1)"
    by (simp only: set_map)
  then obtain t where
    x: "x = (if th_id t = T then t\<lparr>th_last_activity_at := now\<rparr> else t)"
    by (rule imageE)
  show ?thesis
  proof (cases "th_id t = T")
    case True
    with x show ?thesis by simp
  next
    case False
    with x assms(3) show ?thesis by simp
  qed
qed

lemma create_thread_sets_activity:
  assumes "create_thread st frm now = Inr (st2, Redirect j a)" "x \<in> set (threads st2)" "th_id x = j"
  shows "th_last_activity_at x = now"
proof -
  from create_thread_redirect [OF assms(1)] obtain s where
    "update_thread_posted s now j = Inr st2" ..
  from update_thread_posted_activity [OF this assms(2,3)] show ?thesis .
qed

lemma reply_sets_activity:
  assumes "reply st T frm now = Inr (st2, r)" "x \<in> set (threads st2)" "th_id x = T"
  shows "th_last_activity_at x = now"
proof -
  from reply_redirect [OF assms(1)] obtain s where
    "update_thread_posted s now T = Inr st2" ..
  from update_thread_posted_activity [OF this assms(2,3)] show ?thesis .
qed

lemma comment_sets_activity:
  assumes "comment st P frm now = Inr (st2, Redirect T a)" "x \<in> set (threads st2)" "th_id x = T"
  shows "th_last_activity_at x = now"
proof -
  from comment_redirect [OF assms(1)] obtain s where
    "update_thread_activity s now T = Inr st2" ..
  from update_thread_activity_activity [OF this assms(2,3)] show ?thesis .
qed

lemma create_thread_example:
  "create_thread seeded_store hello_form 100 = Inr (after_create, Redirect 1 None)"
  by (simp add: after_create_def seeded_store_def empty_store_def seeded_def hello_form_def
        hello_thread_def handler_eval)

lemma reply_example:
  "reply after_create 1 reply_form 150 = Inr (after_reply, Redirect 1 None)"
  by (simp add: after_reply_def after_create_def seeded_store_def empty_store_def seeded_def
        reply_form_def hello_thread_def handler_eval)

lemma comment_example:
  "comment after_reply 1 reply_form 170 = Inr (after_comment, Redirect 1 (Some 1))"
  by (simp add: after_comment_def after_reply_def after_create_def seeded_store_def
        empty_store_def seeded_def reply_form_def hello_thread_def handler_eval)

text \<open>
  Claim C3, as the code has it. Take a store with consistent keys and counters and any
  sequence of createThread, addReply and addComment operations. After each operation
  every thread's \<^verbatim>\<open>posts_count\<close> is the number of its posts. When moreover no row of
  the store is later than the first clock reading and the readings never decrease, every
  thread's \<^verbatim>\<open>last_activity_at\<close> is the maximum creation time over its posts and the
  comments on them. Whatever the clock does, each operation that completes leaves its own
  clock reading in the \<^verbatim>\<open>last_activity_at\<close> of the thread it touched: the thread
  \<^verbatim>\<open>create_thread\<close> redirects to, the thread \<^verbatim>\<open>reply\<close> was called for, and the thread
  of the post \<^verbatim>\<open>comment\<close> was called for.
\<close>

theorem counters_after_operations:
  "(keys_consistent st \<and> counters_consistent st \<and> n \<le> length ops
      \<and> t \<in> set (threads (run_operations st (take n ops)))
     \<longrightarrow> th_posts_count t = int (length (posts_of (run_operations st (take n ops)) (th_id t)))
         \<and> (not_after st t0 \<and> sorted (t0 # map snd ops) \<longrightarrow>
              activity_times (run_operations st (take n ops)) (th_id t) \<noteq> []
              \<and> th_last_activity_at t
                  = Max (set (activity_times (run_operations st (take n ops)) (th_id t)))))
   \<and> (create_thread s frm now = Inr (s1, Redirect j a) \<and> x \<in> set (threads s1) \<and> th_id x = j
        \<longrightarrow> th_last_activity_at x = now)
   \<and> (reply s T frm now = Inr (s1, r) \<and> x \<in> set (threads s1) \<and> th_id x = T
        \<longrightarrow> th_last_activity_at x = now)
   \<and> (comment s P frm now = Inr (s1, Redirect T a) \<and> x \<in> set (threads s1) \<and> th_id x = T
        \<longrightarrow> th_last_activity_at x = now)"
proof (intro conjI; rule impI)
  assume "keys_consistent st \<and> counters_consistent st \<and> n \<le> length ops
      \<and> t \<in> set (threads (run_operations st (take n ops)))"
  then have a: "keys_consistent st" "counters_consistent st" "n \<le> length ops"
    "t \<in> set (threads (run_operations st (take n ops)))"
    by simp_all
  from counters_after_sequence [OF a, of t0]
  show "th_posts_count t = int (length (posts_of (run_operations st (take n ops)) (th_id t)))
         \<and> (not_after st t0 \<and> sorted (t0 # map snd ops) \<longrightarrow>
              activity_times (run_operations st (take n ops)) (th_id t) \<noteq> []
              \<and> th_last_activity_at t
                  = Max (set (activity_times (run_operations st (take n ops)) (th_id t))))" .
next
  assume "create_thread s frm now = Inr (s1, Redirect j a) \<and> x \<in> set (threads s1) \<and> th_id x = j"
  then have "create_thread s frm now = Inr (s1, Redirect j a)" "x \<in> set (threads s1)" "th_id x = j"
    by simp_all
  then show "th_last_activity_at x = now" by (rule create_thread_sets_activity)
next
  assume "reply s T frm now = Inr (s1, r) \<and> x \<in> set (threads s1) \<and> th_id x = T"
  then have "reply s T frm now = Inr (s1, r)" "x \<in> set (threads s1)" "th_id x = T"
    by simp_all
  then show "th_last_activity_at x = now" by (rule reply_sets_activity)
next
  assume "comment s P frm now = Inr (s1, Redirect T a) \<and> x \<in> set (threads s1) \<and> th_id x = T"
  then have "comment s P frm now = Inr (s1, Redirect T a)" "x \<in> set (threads s1)" "th_id x = T"
    by simp_all
  then show "th_last_activity_at x = now" by (rule comment_sets_activity)
qed

theorem counters_after_operations_witness:
  "keys_consistent seeded_store \<and> counters_consistent seeded_store \<and> not_after seeded_store 0
   \<and> sorted (0 # map snd steady_clock_ops)
   \<and> (4::nat) \<le> length steady_clock_ops
   \<and> hello_thread 2 150 \<in> set (threads (run_operations seeded_store (take 4 steady_clock_ops)))
   \<and> th_posts_count (hello_thread 2 150)
       = int (length (posts_of (run_operations seeded_store (take 4 steady_clock_ops)) 1))
   \<and> th_last_activity_at (hello_thread 2 150)
       = Max (set (activity_times (run_operations seeded_store (take 4 steady_clock_ops)) 1))
   \<and> create_thread seeded_store hello_form 100 = Inr (after_create, Redirect 1 None)
   \<and> hello_thread 1 100 \<in> set (threads after_create) \<and> th_id (hello_thread 1 100) = 1
   \<and> th_last_activity_at (hello_thread 1 100) = 100
   \<and> reply after_create 1 reply_form 150 = Inr (after_reply, Redirect 1 None)
   \<and> hello_thread 2 150 \<in> set (threads after_reply) \<and> th_id (hello_thread 2 150) = 1
   \<and> th_last_activity_at (hello_thread 2 150) = 150
   \<and> comment after_reply 1 reply_form 170 = Inr (after_comment, Redirect 1 (Some 1))
   \<and> hello_thread 2 170 \<in> set (threads after_comment) \<and> th_id (hello_thread 2 170) = 1
   \<and> th_last_activity_at (hello_thread 2 170) = 170"
proof -
  have k: "keys_consistent seeded_store" "counters_consistent seeded_store"
    "not_after seeded_store 0"
    by (simp_all add: keys_consistent_def counters_consistent_def not_after_def seeded_store_def
          empty_store_def)
  have s: "sorted (0 # map snd steady_clock_ops)" "4 \<le> length steady_clock_ops"
    by (simp_all add: steady_clock_ops_def)
  have t: "take 4 steady_clock_ops = steady_clock_ops" by (simp add: steady_clock_ops_def)
  have m: "hello_thread 2 150 \<in> set (threads (run_operations seeded_store (take 4 steady_clock_ops)))"
    by (simp add: t steady_clock_run)
  have i: "th_id (hello_thread c l) = 1" for c l
    by (simp add: hello_thread_def)
  have e: "hello_thread 1 100 \<in> set (threads after_create)"
    "hello_thread 2 150 \<in> set (threads after_reply)"
    "hello_thread 2 170 \<in> set (threads after_comment)"
    by (simp_all add: after_create_def after_reply_def after_comment_def)
  have "keys_consistent seeded_store \<and> counters_consistent seeded_store
        \<and> 4 \<le> length steady_clock_ops
        \<and> hello_thread 2 150 \<in> set (threads (run_operations seeded_store (take 4 steady_clock_ops)))
     \<longrightarrow> th_posts_count (hello_thread 2 150)
           = int (length (posts_of (run_operations seeded_store (take 4 steady_clock_ops))
                   (th_id (hello_thread 2 150))))
         \<and> (not_after seeded_store 0 \<and> sorted (0 # map snd steady_clock_ops) \<longrightarrow>
              activity_times (run_operations seeded_store (take 4 steady_clock_ops))
                (th_id (hello_thread 2 150)) \<noteq> []
              \<and> th_last_activity_at (hello_thread 2 150)
                  = Max (set (activity_times (run_operations seeded_store (take 4 steady_clock_ops))
                      (th_id (hello_thread 2 150)))))"
    by (rule counters_after_operations
         [where st = seeded_store and n = 4 and ops = steady_clock_ops
            and t = "hello_thread 2 150" and ?t0.0 = 0, THEN conjunct1])
  with k s m have
    "th_posts_count (hello_thread 2 150)
       = int (length (posts_of (run_operations seeded_store (take 4 steady_clock_ops))
               (th_id (hello_thread 2 150))))
     \<and> th_last_activity_at (hello_thread 2 150)
         = Max (set (activity_times (run_operations seeded_store (take 4 steady_clock_ops))
             (th_id (hello_thread 2 150))))"
    by blast
  then have q: "th_posts_count (hello_thread 2 150)
       = int (length (posts_of (run_operations seeded_store (take 4 steady_clock_ops)) 1))"
    "th_last_activity_at (hello_thread 2 150)
       = Max (set (activity_times (run_operations seeded_store (take 4 steady_clock_ops)) 1))"
    unfolding i(1) by blast+
  note c = create_thread_example reply_example comment_example
  have "create_thread seeded_store hello_form 100 = Inr (after_create, Redirect 1 None)
        \<and> hello_thread 1 100 \<in> set (threads after_create) \<and> th_id (hello_thread 1 100) = 1
        \<longrightarrow> th_last_activity_at (hello_thread 1 100) = 100"
    by (rule counters_after_operations
         [where s = seeded_store and frm = hello_form and now = 100 and ?s1.0 = after_create
            and j = 1 and a = None and x = "hello_thread 1 100",
          THEN conjunct2, THEN conjunct1])
  from mp [OF this conjI [OF c(1) conjI [OF e(1) i]]]
  have l1: "th_last_activity_at (hello_thread 1 100) = 100" .
  have "reply after_create 1 reply_form 150 = Inr (after_reply, Redirect 1 None)
        \<and> hello_thread 2 150 \<in> set (threads after_reply) \<and> th_id (hello_thread 2 150) = 1
        \<longrightarrow> th_last_activity_at (hello_thread 2 150) = 150"
    by (rule counters_after_operations
         [where s = after_create and T = 1 and frm = reply_form and now = 150
            and ?s1.0 = after_reply and r = "Redirect 1 None" and x = "hello_thread 2 150",
          THEN conjunct2, THEN conjunct2, THEN conjunct1])
  from mp [OF this conjI [OF c(2) conjI [OF e(2) i]]]
  have l2: "th_last_activity_at (hello_thread 2 150) = 150" .
  have "comment after_reply 1 reply_form 170 = Inr (after_comment, Redirect 1 (Some 1))
        \<and> hello_thread 2 170 \<in> set (threads after_comment) \<and> th_id (hello_thread 2 170) = 1
        \<longrightarrow> th_last_activity_at (hello_thread 2 170) = 170"
    by (rule counters_after_operations
         [where s = after_reply and P = 1 and frm = reply_form and now = 170
            and ?s1.0 = after_comment and T = 1 and a = "Some 1" and x = "hello_thread 2 170",
          THEN conjunct2, THEN conjunct2, THEN conjunct2])
  from mp [OF this conjI [OF c(3) conjI [OF e(3) i]]]
  have l3: "th_last_activity_at (hello_thread 2 170) = 170" .
  show ?thesis
    by (intro conjI) (fact k s m q c e i l1 l2 l3)+
qed

text \<open>
  Every operation writes its own clock reading into \<^verbatim>\<open>last_activity_at\<close>. When the clock
  is set back between a thread's creation (at 100) and a reply (at 50), the thread ends
  with \<^verbatim>\<open>last_activity_at\<close> 50 while its first post was created at 100.
\<close>

theorem last_activity_counterexample:
  "keys_consistent seeded_store \<and> counters_consistent seeded_store
   \<and> threads (run_operations seeded_store clock_back_ops) = [hello_thread 2 50]
   \<and> th_last_activity_at (hello_thread 2 50) = 50
   \<and> Max (set (activity_times (run_operations seeded_store clock_back_ops)
                  (th_id (hello_thread 2 50)))) = 100"
  unfolding clock_back_run
  by (simp add: keys_consistent_def counters_consistent_def activity_times_def
        posts_of_def comments_of_def hello_thread_def seeded_store_def empty_store_def)

end
